theory Spec2Isabelle
  imports Complex_Main "HOL-Library.Char_ord" "HOL-Library.List_Lexorder"
begin

section \<open>Data model\<close>

text \<open>
  Floating-point numbers of the program are modelled as real (complex) numbers; a
  pandas Series is a list of (label, value) pairs in index order; a pandas DataFrame
  is its row labels, its column labels and its cells, row by row. Exceptions of the
  program are values of the type \<open>error\<close>, on the left of a sum.
\<close>

datatype error =
    KeyError string
  | ZeroDivisionError
  | AssertionError string
  | IndexError
  | ValueError
  | LinAlgError

record Line =
  line_de :: string
  line_para :: string
  line_r :: real
  line_x :: real
  line_b :: real
  line_tap :: real
  line_nome :: string
  line_status :: bool

record Transformer =
  trafo_de :: string
  trafo_para :: string
  trafo_nome :: string
  trafo_r :: real
  trafo_x :: real
  trafo_b :: real
  trafo_tap :: real
  trafo_fase :: real
  trafo_status :: bool

record Shunt =
  shunt_barra :: string
  shunt_b :: real
  shunt_status :: bool

record Bus =
  bus_numero :: int
  bus_tipo :: string
  bus_nome :: string
  bus_v :: real
  bus_theta :: real

record 'a DataFrame =
  df_index :: "string list"
  df_columns :: "string list"
  df_values :: "'a list list"

type_synonym Series = "(string \<times> real) list"

section \<open>ybus.py\<close>

text \<open>The dictionary \<open>{nome: idx for idx, nome in enumerate(barra_nomes)}\<close>.\<close>

definition barra_map_of :: "string list \<Rightarrow> string \<Rightarrow> nat option" where
  "barra_map_of barra_nomes = map_of (zip barra_nomes [0..<length barra_nomes])"

text \<open>\<open>barra_map[k]\<close>: a missing key raises KeyError.\<close>

definition dict_get :: "(string \<Rightarrow> nat option) \<Rightarrow> string \<Rightarrow> error + nat" where
  "dict_get barra_map k = (case barra_map k of None \<Rightarrow> Inl (KeyError k) | Some i \<Rightarrow> Inr i)"

text \<open>\<open>1 / z\<close> on Python's complex: a zero divisor raises ZeroDivisionError.\<close>

definition py_inverse :: "complex \<Rightarrow> error + complex" where
  "py_inverse z = (if z = 0 then Inl ZeroDivisionError else Inr (1 / z))"

definition admitancia_linha ::
  "Line \<Rightarrow> (string \<Rightarrow> nat option) \<Rightarrow> error + (nat \<times> nat \<times> complex) list" where
  "admitancia_linha linha barra_map =
     (case dict_get barra_map (line_de linha) of Inl e \<Rightarrow> Inl e | Inr i \<Rightarrow>
     (case dict_get barra_map (line_para linha) of Inl e \<Rightarrow> Inl e | Inr j \<Rightarrow>
     (case py_inverse (Complex (line_r linha) (line_x linha)) of Inl e \<Rightarrow> Inl e | Inr y \<Rightarrow>
        (let b = Complex 0 (line_b linha / 2)
         in Inr [(i, i, y + b), (j, j, y + b), (i, j, - y), (j, i, - y)]))))"

definition deg2rad :: "real \<Rightarrow> real" where
  "deg2rad d = d * pi / 180"

text \<open>
  The complex tap \<open>a = trafo.tap * exp(1j * deg2rad(trafo.fase))\<close> and the four terms
  of a transformer. The three quotients by the tap are numpy's: with \<open>tap = 0\<close> they
  are not finite in the program and raise nothing; the model has HOL's quotient there,
  so what is proved about these terms is for a non-zero tap.
\<close>

definition trafo_a :: "Transformer \<Rightarrow> complex" where
  "trafo_a trafo = complex_of_real (trafo_tap trafo) * exp (\<i> * complex_of_real (deg2rad (trafo_fase trafo)))"

definition admitancia_transformador ::
  "Transformer \<Rightarrow> (string \<Rightarrow> nat option) \<Rightarrow> error + (nat \<times> nat \<times> complex) list" where
  "admitancia_transformador trafo barra_map =
     (case dict_get barra_map (trafo_de trafo) of Inl e \<Rightarrow> Inl e | Inr i \<Rightarrow>
     (case dict_get barra_map (trafo_para trafo) of Inl e \<Rightarrow> Inl e | Inr j \<Rightarrow>
     (case py_inverse (Complex (trafo_r trafo) (trafo_x trafo)) of Inl e \<Rightarrow> Inl e | Inr y \<Rightarrow>
        (let b = Complex 0 (trafo_b trafo / 2);
             a = trafo_a trafo;
             Yff = y / (a * cnj a) + b;
             Yft = - y / cnj a;
             Ytf = - y / a;
             Ytt = y + b
         in Inr [(i, i, Yff), (i, j, Yft), (j, i, Ytf), (j, j, Ytt)]))))"

text \<open>\<open>ybus[i, j] += y\<close> on the dense array, and the inner loop over the terms of one element.\<close>

definition add_at :: "complex list list \<Rightarrow> nat \<Rightarrow> nat \<Rightarrow> complex \<Rightarrow> complex list list" where
  "add_at ybus i j y = ybus[i := (ybus ! i)[j := ybus ! i ! j + y]]"

fun acumula :: "complex list list \<Rightarrow> (nat \<times> nat \<times> complex) list \<Rightarrow> complex list list" where
  "acumula ybus [] = ybus"
| "acumula ybus ((i, j, y) # ts) = acumula (add_at ybus i j y) ts"

fun loop_linhas ::
  "(string \<Rightarrow> nat option) \<Rightarrow> complex list list \<Rightarrow> Line list \<Rightarrow> error + complex list list" where
  "loop_linhas barra_map ybus [] = Inr ybus"
| "loop_linhas barra_map ybus (linha # linhas) =
     (case admitancia_linha linha barra_map of
        Inl e \<Rightarrow> Inl e
      | Inr ts \<Rightarrow> loop_linhas barra_map (acumula ybus ts) linhas)"

fun loop_trafos ::
  "(string \<Rightarrow> nat option) \<Rightarrow> complex list list \<Rightarrow> Transformer list \<Rightarrow> error + complex list list" where
  "loop_trafos barra_map ybus [] = Inr ybus"
| "loop_trafos barra_map ybus (trafo # trafos) =
     (case admitancia_transformador trafo barra_map of
        Inl e \<Rightarrow> Inl e
      | Inr ts \<Rightarrow> loop_trafos barra_map (acumula ybus ts) trafos)"

fun loop_shunts ::
  "(string \<Rightarrow> nat option) \<Rightarrow> complex list list \<Rightarrow> Shunt list \<Rightarrow> complex list list" where
  "loop_shunts barra_map ybus [] = ybus"
| "loop_shunts barra_map ybus (shunt # shunts) =
     (if shunt_status shunt
      then (case barra_map (shunt_barra shunt) of
              Some i \<Rightarrow> loop_shunts barra_map (add_at ybus i i (Complex 0 (shunt_b shunt))) shunts
            | None \<Rightarrow> loop_shunts barra_map ybus shunts)
      else loop_shunts barra_map ybus shunts)"

definition zeros :: "nat \<Rightarrow> nat \<Rightarrow> complex list list" where
  "zeros n m = replicate n (replicate m 0)"

text \<open>\<open>sorted(set(b.nome for b in barras))\<close>: the distinct names in lexicographic order.\<close>

definition barra_nomes_of :: "Bus list \<Rightarrow> string list" where
  "barra_nomes_of barras = sort (remdups (map bus_nome barras))"

definition Ybus ::
  "Line list \<Rightarrow> Transformer list \<Rightarrow> Bus list \<Rightarrow> Shunt list \<Rightarrow> error + complex DataFrame" where
  "Ybus linhas transformadores barras shunts =
     (let barra_nomes = barra_nomes_of barras;
          barra_map = barra_map_of barra_nomes;
          nb = length barra_nomes
      in (case loop_linhas barra_map (zeros nb nb) linhas of Inl e \<Rightarrow> Inl e | Inr y1 \<Rightarrow>
         (case loop_trafos barra_map y1 transformadores of Inl e \<Rightarrow> Inl e | Inr y2 \<Rightarrow>
           Inr \<lparr>df_index = barra_nomes, df_columns = barra_nomes,
                df_values = loop_shunts barra_map y2 shunts\<rparr>)))"

text \<open>
  The terms that the three loops add, in order: those of every line, of every transformer
  and of every in-service shunt on a known bus.
\<close>

definition termos_linhas :: "(string \<Rightarrow> nat option) \<Rightarrow> Line list \<Rightarrow> (nat \<times> nat \<times> complex) list" where
  "termos_linhas barra_map linhas =
     concat (map (\<lambda>linha. case admitancia_linha linha barra_map of Inl e \<Rightarrow> [] | Inr ts \<Rightarrow> ts) linhas)"

definition termos_trafos :: "(string \<Rightarrow> nat option) \<Rightarrow> Transformer list \<Rightarrow> (nat \<times> nat \<times> complex) list" where
  "termos_trafos barra_map trafos =
     concat (map (\<lambda>trafo. case admitancia_transformador trafo barra_map of Inl e \<Rightarrow> [] | Inr ts \<Rightarrow> ts) trafos)"

definition termos_shunts :: "(string \<Rightarrow> nat option) \<Rightarrow> Shunt list \<Rightarrow> (nat \<times> nat \<times> complex) list" where
  "termos_shunts barra_map shunts =
     concat (map (\<lambda>shunt. if shunt_status shunt
                           then (case barra_map (shunt_barra shunt) of
                                   Some i \<Rightarrow> [(i, i, Complex 0 (shunt_b shunt))] | None \<Rightarrow> [])
                           else []) shunts)"

definition contribuicoes ::
  "Line list \<Rightarrow> Transformer list \<Rightarrow> Bus list \<Rightarrow> Shunt list \<Rightarrow> (nat \<times> nat \<times> complex) list" where
  "contribuicoes linhas transformadores barras shunts =
     (let barra_map = barra_map_of (barra_nomes_of barras)
      in termos_linhas barra_map linhas @ termos_trafos barra_map transformadores
         @ termos_shunts barra_map shunts)"

definition soma_em :: "nat \<Rightarrow> nat \<Rightarrow> (nat \<times> nat \<times> complex) list \<Rightarrow> complex" where
  "soma_em i j ts = sum_list (map (\<lambda>(a, b, y). if a = i \<and> b = j then y else 0) ts)"

section \<open>Concrete networks\<close>

definition barra_A :: Bus where
  "barra_A = \<lparr>bus_numero = 1, bus_tipo = ''SWING'', bus_nome = ''A'', bus_v = 1, bus_theta = 0\<rparr>"

definition barra_B :: Bus where
  "barra_B = \<lparr>bus_numero = 2, bus_tipo = ''PQ'', bus_nome = ''B'', bus_v = 1, bus_theta = 0\<rparr>"

definition barra_C :: Bus where
  "barra_C = \<lparr>bus_numero = 3, bus_tipo = ''PV'', bus_nome = ''C'', bus_v = 1, bus_theta = 0\<rparr>"

definition linha_AB :: Line where
  "linha_AB = \<lparr>line_de = ''A'', line_para = ''B'', line_r = 0, line_x = 1, line_b = 0,
                line_tap = 1, line_nome = [], line_status = True\<rparr>"

definition linha_desligada :: Line where
  "linha_desligada = linha_AB\<lparr>line_status := False\<rparr>"

definition trafo_AB :: Transformer where
  "trafo_AB = \<lparr>trafo_de = ''A'', trafo_para = ''B'', trafo_nome = [], trafo_r = 0, trafo_x = 1,
                trafo_b = 0, trafo_tap = 1, trafo_fase = 1, trafo_status = True\<rparr>"

definition Y_AB :: "complex DataFrame" where
  "Y_AB = \<lparr>df_index = [''A'', ''B''], df_columns = [''A'', ''B''],
           df_values = [[Complex 0 (- 1), Complex 0 1], [Complex 0 1, Complex 0 (- 1)]]\<rparr>"

text \<open>
  A matrix that is not symmetric (as a phase shifter makes it), with eight different
  numbers in its cells.
\<close>

definition Y_assimetrica :: "complex DataFrame" where
  "Y_assimetrica = \<lparr>df_index = [''A'', ''B''], df_columns = [''A'', ''B''],
           df_values = [[Complex 1 (- 5), Complex 2 (- 6)], [Complex 3 (- 7), Complex 4 (- 8)]]\<rparr>"

definition Y_ABC :: "complex DataFrame" where
  "Y_ABC = \<lparr>df_index = [''A'', ''B'', ''C''], df_columns = [''A'', ''B'', ''C''],
            df_values = [[Complex 0 (- 1), Complex 0 1, 0], [Complex 0 1, Complex 0 (- 1), 0],
                         [0, 0, 0]]\<rparr>"

text \<open>
  The transformer terms as the specification words them: the phase attribute is an angle
  in radians and the complex tap is \<open>tap * exp(j * fase)\<close>.
\<close>

definition trafo_a_spec :: "Transformer \<Rightarrow> complex" where
  "trafo_a_spec trafo = complex_of_real (trafo_tap trafo) * exp (\<i> * complex_of_real (trafo_fase trafo))"

definition termos_trafo_spec :: "Transformer \<Rightarrow> nat \<Rightarrow> nat \<Rightarrow> (nat \<times> nat \<times> complex) list" where
  "termos_trafo_spec trafo i j =
     (let y = 1 / Complex (trafo_r trafo) (trafo_x trafo);
          b = Complex 0 (trafo_b trafo / 2);
          a = trafo_a_spec trafo
      in [(i, i, y / (a * cnj a) + b), (i, j, - y / cnj a), (j, i, - y / a), (j, j, y + b)])"

section \<open>Labelled lookups\<close>

text \<open>Sequencing of computations that may raise: the first error wins.\<close>

definition then_do :: "error + 'a \<Rightarrow> ('a \<Rightarrow> error + 'b) \<Rightarrow> error + 'b" where
  "then_do m f = (case m of Inl e \<Rightarrow> Inl e | Inr v \<Rightarrow> f v)"

text \<open>
  \<open>s.loc[k]\<close> and \<open>s[k]\<close> on a Series, and the assignment \<open>s.loc[k] = v\<close> to an
  existing label. Labels of a Series are taken to be distinct, as bus names are.
\<close>

definition series_loc :: "Series \<Rightarrow> string \<Rightarrow> error + real" where
  "series_loc s k = (case map_of s k of None \<Rightarrow> Inl (KeyError k) | Some v \<Rightarrow> Inr v)"

definition series_set :: "Series \<Rightarrow> string \<Rightarrow> real \<Rightarrow> Series" where
  "series_set s k v = map (\<lambda>(k', v'). if k' = k then (k', v) else (k', v')) s"

text \<open>The position of a label in an index (\<open>Index.get_loc\<close>), read only for labels present.\<close>

fun get_loc :: "string list \<Rightarrow> string \<Rightarrow> nat" where
  "get_loc [] k = 0"
| "get_loc (x # xs) k = (if x = k then 0 else Suc (get_loc xs k))"

definition df_loc :: "'a DataFrame \<Rightarrow> string \<Rightarrow> string \<Rightarrow> error + 'a" where
  "df_loc F k m =
     (if k \<notin> set (df_index F) then Inl (KeyError k)
      else if m \<notin> set (df_columns F) then Inl (KeyError m)
      else Inr (df_values F ! get_loc (df_index F) k ! get_loc (df_columns F) m))"

definition df_map :: "('a \<Rightarrow> 'b) \<Rightarrow> 'a DataFrame \<Rightarrow> 'b DataFrame" where
  "df_map f F = \<lparr>df_index = df_index F, df_columns = df_columns F,
                 df_values = map (map f) (df_values F)\<rparr>"

text \<open>\<open>F.loc[ordem, ordem]\<close>: the frame realigned to the labels \<open>ordem\<close>, KeyError on a label
  that the rows or the columns lack.\<close>

definition df_reindex :: "'a DataFrame \<Rightarrow> string list \<Rightarrow> error + 'a DataFrame" where
  "df_reindex F ordem =
     (case find (\<lambda>k. k \<notin> set (df_index F)) ordem of
        Some k \<Rightarrow> Inl (KeyError k)
      | None \<Rightarrow>
         (case find (\<lambda>k. k \<notin> set (df_columns F)) ordem of
            Some k \<Rightarrow> Inl (KeyError k)
          | None \<Rightarrow>
              Inr \<lparr>df_index = ordem, df_columns = ordem,
                   df_values = map (\<lambda>k. map (\<lambda>m. df_values F ! get_loc (df_index F) k
                                                   ! get_loc (df_columns F) m) ordem) ordem\<rparr>))"

section \<open>solver/residuals.py and solver/update.py\<close>

definition split_corrections :: "real list \<Rightarrow> nat \<Rightarrow> nat \<Rightarrow> real list \<times> real list" where
  "split_corrections delta n_theta n_v = (take n_theta delta, take n_v (drop n_theta delta))"

text \<open>
  The loop \<open>for i, nome in enumerate(nomes): s.loc[nome] -= d[i]\<close>: the read of
  \<open>s.loc[nome]\<close> raises KeyError, then the read of \<open>d[i]\<close> raises IndexError.
\<close>

fun loop_sub :: "Series \<Rightarrow> real list \<Rightarrow> nat \<Rightarrow> string list \<Rightarrow> error + Series" where
  "loop_sub s d i [] = Inr s"
| "loop_sub s d i (nome # nomes) =
     (case series_loc s nome of
        Inl e \<Rightarrow> Inl e
      | Inr v \<Rightarrow>
          if i < length d then loop_sub (series_set s nome (v - d ! i)) d (Suc i) nomes
          else Inl IndexError)"

definition apply_delta ::
  "Series \<Rightarrow> Series \<Rightarrow> real list \<Rightarrow> string list \<Rightarrow> string list \<Rightarrow> string list
   \<Rightarrow> error + (Series \<times> Series)" where
  "apply_delta theta V delta index swing pq =
     (case split_corrections delta (length index) (length (swing @ pq)) of
        (delta_theta, delta_v) \<Rightarrow>
          then_do (loop_sub theta delta_theta 0 index) (\<lambda>theta'.
          then_do (loop_sub V delta_v 0 (swing @ pq)) (\<lambda>V'.
          Inr (theta', V'))))"

section \<open>solver/power_balance.py\<close>

text \<open>One pass of the inner loop body: the terms added to \<open>P[k]\<close> and \<open>Q[k]\<close> for a bus \<open>m\<close>.\<close>

definition pq_term ::
  "real DataFrame \<Rightarrow> real DataFrame \<Rightarrow> Series \<Rightarrow> Series \<Rightarrow> string \<Rightarrow> string
   \<Rightarrow> error + (real \<times> real)" where
  "pq_term G B V theta k m =
     then_do (series_loc theta k) (\<lambda>tk.
     then_do (series_loc theta m) (\<lambda>tm.
     then_do (series_loc V k) (\<lambda>vk.
     then_do (series_loc V m) (\<lambda>vm.
     then_do (df_loc G k m) (\<lambda>g.
     then_do (df_loc B k m) (\<lambda>b.
       Inr (vk * vm * (g * cos (tk - tm) + b * sin (tk - tm)),
            vk * vm * (g * sin (tk - tm) - b * cos (tk - tm)))))))))"

fun loop_m ::
  "real DataFrame \<Rightarrow> real DataFrame \<Rightarrow> Series \<Rightarrow> Series \<Rightarrow> string \<Rightarrow> real \<times> real
   \<Rightarrow> string list \<Rightarrow> error + (real \<times> real)" where
  "loop_m G B V theta k acc [] = Inr acc"
| "loop_m G B V theta k acc (m # ms) =
     then_do (pq_term G B V theta k m) (\<lambda>t.
       loop_m G B V theta k (fst acc + fst t, snd acc + snd t) ms)"

fun loop_k ::
  "real DataFrame \<Rightarrow> real DataFrame \<Rightarrow> Series \<Rightarrow> Series \<Rightarrow> string list \<Rightarrow> string list
   \<Rightarrow> error + (Series \<times> Series)" where
  "loop_k G B V theta ordem [] = Inr ([], [])"
| "loop_k G B V theta ordem (k # ks) =
     then_do (loop_m G B V theta k (0, 0) ordem) (\<lambda>pq.
     then_do (loop_k G B V theta ordem ks) (\<lambda>PQ.
       Inr ((k, fst pq) # fst PQ, (k, snd pq) # snd PQ)))"

definition calc_injected_power ::
  "complex DataFrame \<Rightarrow> Series \<Rightarrow> Series \<Rightarrow> error + (Series \<times> Series)" where
  "calc_injected_power Y V theta =
     (let ordem = map fst V in
      then_do (df_reindex (df_map Re Y) ordem) (\<lambda>G.
      then_do (df_reindex (df_map Im Y) ordem) (\<lambda>B.
        if df_index G \<noteq> ordem then Inl (AssertionError ''G'')
        else if df_index B \<noteq> ordem then Inl (AssertionError ''B'')
        else if map fst theta \<noteq> ordem then Inl (AssertionError ''theta'')
        else loop_k G B V theta ordem ordem)))"

text \<open>
  The table of specified powers: per bus, the columns \<open>P_esp\<close> and \<open>Q_esp\<close>. The loop
  of the mismatch functions reads the table and the computed vector inside one
  \<open>try\<close>; a KeyError of either read is raised again as the KeyError that names the bus.
\<close>

type_synonym PotEsp = "(string \<times> real \<times> real) list"

fun loop_delta ::
  "(string \<Rightarrow> real option) \<Rightarrow> (string \<Rightarrow> real option) \<Rightarrow> string list \<Rightarrow> error + Series" where
  "loop_delta esp calc [] = Inr []"
| "loop_delta esp calc (barra # barras) =
     (case esp barra of
        None \<Rightarrow> Inl (KeyError barra)
      | Some e \<Rightarrow>
         (case calc barra of
            None \<Rightarrow> Inl (KeyError barra)
          | Some c \<Rightarrow> then_do (loop_delta esp calc barras) (\<lambda>d. Inr ((barra, e - c) # d))))"

fun zera_swing :: "Series \<Rightarrow> string list \<Rightarrow> Series" where
  "zera_swing d [] = d"
| "zera_swing d (barra # swing) =
     zera_swing (if barra \<in> set (map fst d) then series_set d barra 0 else d) swing"

definition calc_delta_p :: "Series \<Rightarrow> PotEsp \<Rightarrow> string list \<Rightarrow> string list \<Rightarrow> error + Series" where
  "calc_delta_p P pot_esp index swing =
     then_do (loop_delta (\<lambda>k. map_option fst (map_of pot_esp k)) (map_of P) index)
       (\<lambda>delta_P. Inr (zera_swing delta_P swing))"

definition calc_delta_q :: "Series \<Rightarrow> PotEsp \<Rightarrow> string list \<Rightarrow> string list \<Rightarrow> error + Series" where
  "calc_delta_q Q pot_esp pq swing =
     (let barras_q = swing @ pq in
      then_do (loop_delta (\<lambda>k. map_option snd (map_of pot_esp k)) (map_of Q) barras_q)
        (\<lambda>delta_Q. Inr (zera_swing delta_Q swing)))"

section \<open>Reference formulas of the injected powers\<close>

text \<open>
  A well-formed frame has one row of cells per row label and one cell per column label;
  \<open>cell F k m\<close> is the cell at the labels k, m. \<open>P_inj\<close> and \<open>Q_inj\<close> are the sums of
  section 4.2 of the specification over the buses of \<open>ordem\<close>.
\<close>

definition df_wf :: "'a DataFrame \<Rightarrow> bool" where
  "df_wf F \<longleftrightarrow> length (df_values F) = length (df_index F)
     \<and> (\<forall>row \<in> set (df_values F). length row = length (df_columns F))"

definition cell :: "'a DataFrame \<Rightarrow> string \<Rightarrow> string \<Rightarrow> 'a" where
  "cell F k m = df_values F ! get_loc (df_index F) k ! get_loc (df_columns F) m"

definition P_inj :: "(string \<Rightarrow> real) \<Rightarrow> (string \<Rightarrow> real) \<Rightarrow> (string \<Rightarrow> string \<Rightarrow> real)
    \<Rightarrow> (string \<Rightarrow> string \<Rightarrow> real) \<Rightarrow> string list \<Rightarrow> string \<Rightarrow> real" where
  "P_inj v t g b ordem k =
     sum_list (map (\<lambda>m. v k * v m * (g k m * cos (t k - t m) + b k m * sin (t k - t m))) ordem)"

definition Q_inj :: "(string \<Rightarrow> real) \<Rightarrow> (string \<Rightarrow> real) \<Rightarrow> (string \<Rightarrow> string \<Rightarrow> real)
    \<Rightarrow> (string \<Rightarrow> string \<Rightarrow> real) \<Rightarrow> string list \<Rightarrow> string \<Rightarrow> real" where
  "Q_inj v t g b ordem k =
     sum_list (map (\<lambda>m. v k * v m * (g k m * sin (t k - t m) - b k m * cos (t k - t m))) ordem)"

section \<open>config.py and solver/jacobian.py\<close>

definition BIG_NUMBER :: real where
  "BIG_NUMBER = 1"

text \<open>
  The body of the double loop of each of the four builders. The quotients by \<open>V[k]\<close> in
  the diagonal terms of N and L are numpy's: with \<open>V[k] = 0\<close> the program stores a value
  that is not finite and raises nothing, and the model has HOL's quotient there.
\<close>

definition H_entry ::
  "Series \<Rightarrow> Series \<Rightarrow> real DataFrame \<Rightarrow> real DataFrame \<Rightarrow> Series \<Rightarrow> Series \<Rightarrow> string list
   \<Rightarrow> string \<Rightarrow> string \<Rightarrow> error + real" where
  "H_entry V theta G B P Q swing k m =
     (if k \<in> set swing \<or> m \<in> set swing then Inr (if k = m then BIG_NUMBER else 0)
      else if k = m then
        then_do (series_loc Q k) (\<lambda>qk.
        then_do (series_loc V k) (\<lambda>vk.
        then_do (df_loc B k k) (\<lambda>bkk.
          Inr (- qk - vk ^ 2 * bkk))))
      else
        then_do (series_loc theta k) (\<lambda>tk.
        then_do (series_loc theta m) (\<lambda>tm.
        then_do (series_loc V k) (\<lambda>vk.
        then_do (series_loc V m) (\<lambda>vm.
        then_do (df_loc G k m) (\<lambda>gkm.
        then_do (df_loc B k m) (\<lambda>bkm.
          Inr (vk * vm * (gkm * sin (tk - tm) - bkm * cos (tk - tm))))))))))"

definition N_entry ::
  "Series \<Rightarrow> Series \<Rightarrow> real DataFrame \<Rightarrow> real DataFrame \<Rightarrow> Series \<Rightarrow> Series \<Rightarrow> string list
   \<Rightarrow> string \<Rightarrow> string \<Rightarrow> error + real" where
  "N_entry V theta G B P Q swing k m =
     (if k \<in> set swing \<or> m \<in> set swing then Inr 0
      else if k = m then
        then_do (series_loc P k) (\<lambda>pk.
        then_do (series_loc V k) (\<lambda>vk.
        then_do (df_loc G k k) (\<lambda>gkk.
          Inr ((pk + vk ^ 2 * gkk) / vk))))
      else
        then_do (series_loc theta k) (\<lambda>tk.
        then_do (series_loc theta m) (\<lambda>tm.
        then_do (series_loc V k) (\<lambda>vk.
        then_do (df_loc G k m) (\<lambda>gkm.
        then_do (df_loc B k m) (\<lambda>bkm.
          Inr (vk * (gkm * cos (tk - tm) + bkm * sin (tk - tm)))))))))"

definition M_entry ::
  "Series \<Rightarrow> Series \<Rightarrow> real DataFrame \<Rightarrow> real DataFrame \<Rightarrow> Series \<Rightarrow> Series \<Rightarrow> string list
   \<Rightarrow> string \<Rightarrow> string \<Rightarrow> error + real" where
  "M_entry V theta G B P Q swing k m =
     (if k \<in> set swing \<or> m \<in> set swing then Inr 0
      else if k = m then
        then_do (series_loc P k) (\<lambda>pk.
        then_do (series_loc V k) (\<lambda>vk.
        then_do (df_loc G k k) (\<lambda>gkk.
          Inr (pk - vk ^ 2 * gkk))))
      else
        then_do (series_loc theta k) (\<lambda>tk.
        then_do (series_loc theta m) (\<lambda>tm.
        then_do (series_loc V k) (\<lambda>vk.
        then_do (series_loc V m) (\<lambda>vm.
        then_do (df_loc G k m) (\<lambda>gkm.
        then_do (df_loc B k m) (\<lambda>bkm.
          Inr (- vk * vm * (gkm * cos (tk - tm) + bkm * sin (tk - tm))))))))))"

definition L_entry ::
  "Series \<Rightarrow> Series \<Rightarrow> real DataFrame \<Rightarrow> real DataFrame \<Rightarrow> Series \<Rightarrow> Series \<Rightarrow> string list
   \<Rightarrow> string \<Rightarrow> string \<Rightarrow> error + real" where
  "L_entry V theta G B P Q swing k m =
     (if k \<in> set swing \<or> m \<in> set swing then Inr (if k = m then BIG_NUMBER else 0)
      else if k = m then
        then_do (series_loc Q k) (\<lambda>qk.
        then_do (series_loc V k) (\<lambda>vk.
        then_do (df_loc B k k) (\<lambda>bkk.
          Inr ((qk - vk ^ 2 * bkk) / vk))))
      else
        then_do (series_loc theta k) (\<lambda>tk.
        then_do (series_loc theta m) (\<lambda>tm.
        then_do (series_loc V k) (\<lambda>vk.
        then_do (df_loc G k m) (\<lambda>gkm.
        then_do (df_loc B k m) (\<lambda>bkm.
          Inr (vk * (gkm * sin (tk - tm) - bkm * cos (tk - tm)))))))))"

text \<open>The double loop that fills a block, row by row, and the stacking of the blocks.\<close>

fun monta_linha :: "(string \<Rightarrow> error + real) \<Rightarrow> string list \<Rightarrow> error + real list" where
  "monta_linha f [] = Inr []"
| "monta_linha f (m # ms) =
     then_do (f m) (\<lambda>x. then_do (monta_linha f ms) (\<lambda>xs. Inr (x # xs)))"

fun monta_bloco ::
  "(string \<Rightarrow> string \<Rightarrow> error + real) \<Rightarrow> string list \<Rightarrow> string list \<Rightarrow> error + real list list" where
  "monta_bloco f [] colunas = Inr []"
| "monta_bloco f (k # ks) colunas =
     then_do (monta_linha (f k) colunas) (\<lambda>r.
     then_do (monta_bloco f ks colunas) (\<lambda>rs. Inr (r # rs)))"

definition hstack :: "real list list \<Rightarrow> real list list \<Rightarrow> real list list" where
  "hstack A C = map (\<lambda>(a, c). a @ c) (zip A C)"

definition vstack :: "real list list \<Rightarrow> real list list \<Rightarrow> real list list" where
  "vstack A C = A @ C"

definition Jacobian_build ::
  "Series \<Rightarrow> Series \<Rightarrow> real DataFrame \<Rightarrow> real DataFrame \<Rightarrow> Series \<Rightarrow> Series
   \<Rightarrow> string list \<Rightarrow> string list \<Rightarrow> string list \<Rightarrow> string list \<Rightarrow> error + real list list" where
  "Jacobian_build V theta G B P Q pq pv swing index =
     then_do (monta_bloco (H_entry V theta G B P Q swing) index index) (\<lambda>H.
     then_do (monta_bloco (N_entry V theta G B P Q swing) index (swing @ pq)) (\<lambda>N.
     then_do (monta_bloco (M_entry V theta G B P Q swing) (swing @ pq) index) (\<lambda>M.
     then_do (monta_bloco (L_entry V theta G B P Q swing) (swing @ pq) (swing @ pq)) (\<lambda>L.
       Inr (vstack (hstack H N) (hstack M L))))))"

section \<open>The Jacobian of section 4.3 of the specification\<close>

text \<open>
  The reference definition, over mathematical vectors and matrices indexed by bus name:
  the four entry formulas, with the entries of a swing row or column set to 0 except the
  diagonal entries of H and L, which are BIG_NUMBER, and the block matrix [[H, N], [M, L]].
\<close>

definition H_ref ::
  "(string \<Rightarrow> real) \<Rightarrow> (string \<Rightarrow> real) \<Rightarrow> (string \<Rightarrow> string \<Rightarrow> real) \<Rightarrow> (string \<Rightarrow> string \<Rightarrow> real)
   \<Rightarrow> (string \<Rightarrow> real) \<Rightarrow> (string \<Rightarrow> real) \<Rightarrow> string list \<Rightarrow> string \<Rightarrow> string \<Rightarrow> real" where
  "H_ref v t g b p q swing k m =
     (if k \<in> set swing \<or> m \<in> set swing then (if k = m then BIG_NUMBER else 0)
      else if k = m then - q k - (v k)\<^sup>2 * b k k
      else v k * v m * (g k m * sin (t k - t m) - b k m * cos (t k - t m)))"

definition N_ref ::
  "(string \<Rightarrow> real) \<Rightarrow> (string \<Rightarrow> real) \<Rightarrow> (string \<Rightarrow> string \<Rightarrow> real) \<Rightarrow> (string \<Rightarrow> string \<Rightarrow> real)
   \<Rightarrow> (string \<Rightarrow> real) \<Rightarrow> (string \<Rightarrow> real) \<Rightarrow> string list \<Rightarrow> string \<Rightarrow> string \<Rightarrow> real" where
  "N_ref v t g b p q swing k m =
     (if k \<in> set swing \<or> m \<in> set swing then 0
      else if k = m then (p k + (v k)\<^sup>2 * g k k) / v k
      else v k * (g k m * cos (t k - t m) + b k m * sin (t k - t m)))"

definition M_ref ::
  "(string \<Rightarrow> real) \<Rightarrow> (string \<Rightarrow> real) \<Rightarrow> (string \<Rightarrow> string \<Rightarrow> real) \<Rightarrow> (string \<Rightarrow> string \<Rightarrow> real)
   \<Rightarrow> (string \<Rightarrow> real) \<Rightarrow> (string \<Rightarrow> real) \<Rightarrow> string list \<Rightarrow> string \<Rightarrow> string \<Rightarrow> real" where
  "M_ref v t g b p q swing k m =
     (if k \<in> set swing \<or> m \<in> set swing then 0
      else if k = m then p k - (v k)\<^sup>2 * g k k
      else - v k * v m * (g k m * cos (t k - t m) + b k m * sin (t k - t m)))"

definition L_ref ::
  "(string \<Rightarrow> real) \<Rightarrow> (string \<Rightarrow> real) \<Rightarrow> (string \<Rightarrow> string \<Rightarrow> real) \<Rightarrow> (string \<Rightarrow> string \<Rightarrow> real)
   \<Rightarrow> (string \<Rightarrow> real) \<Rightarrow> (string \<Rightarrow> real) \<Rightarrow> string list \<Rightarrow> string \<Rightarrow> string \<Rightarrow> real" where
  "L_ref v t g b p q swing k m =
     (if k \<in> set swing \<or> m \<in> set swing then (if k = m then BIG_NUMBER else 0)
      else if k = m then (q k - (v k)\<^sup>2 * b k k) / v k
      else v k * (g k m * sin (t k - t m) - b k m * cos (t k - t m)))"

definition J_ref ::
  "(string \<Rightarrow> real) \<Rightarrow> (string \<Rightarrow> real) \<Rightarrow> (string \<Rightarrow> string \<Rightarrow> real) \<Rightarrow> (string \<Rightarrow> string \<Rightarrow> real)
   \<Rightarrow> (string \<Rightarrow> real) \<Rightarrow> (string \<Rightarrow> real) \<Rightarrow> string list \<Rightarrow> string list \<Rightarrow> string list
   \<Rightarrow> real list list" where
  "J_ref v t g b p q index swing pq =
     map (\<lambda>k. map (H_ref v t g b p q swing k) index
              @ map (N_ref v t g b p q swing k) (swing @ pq)) index
     @ map (\<lambda>k. map (M_ref v t g b p q swing k) index
                @ map (L_ref v t g b p q swing k) (swing @ pq)) (swing @ pq)"

section \<open>solver/convergence.py and newtonraphson.py\<close>

text \<open>
  \<open>np.max(np.abs(mismatch))\<close>: the largest absolute value, ValueError on an empty vector.
  What the function prints is not modelled.
\<close>

fun max_abs :: "real list \<Rightarrow> real" where
  "max_abs [] = 0"
| "max_abs (x # xs) = max \<bar>x\<bar> (max_abs xs)"

definition check_convergence :: "real list \<Rightarrow> real \<Rightarrow> error + bool" where
  "check_convergence mismatch tol =
     (if mismatch = [] then Inl ValueError else Inr (max_abs mismatch < tol))"

text \<open>
  The table of buses of a system, with the columns the solver reads, and the state of a
  solver built from it by \<open>__init__\<close>.
\<close>

record BusRow =
  row_barra :: string
  row_tipo :: string
  row_V :: real
  row_Theta :: real
  row_P_esp :: real
  row_Q_esp :: real

record Sistema =
  sis_df_bus :: "BusRow list"
  sis_ybus :: "complex DataFrame"

record NewtonRaphson =
  nr_V :: Series
  nr_theta :: Series
  nr_Ybus :: "complex DataFrame"
  nr_pot_esp :: PotEsp
  nr_tol :: real
  nr_max_iter :: int
  nr_pq :: "string list"
  nr_pv :: "string list"
  nr_swing :: "string list"
  nr_index :: "string list"

definition barras_tipo :: "BusRow list \<Rightarrow> string \<Rightarrow> string list" where
  "barras_tipo dbus tipo = map row_barra (filter (\<lambda>r. row_tipo r = tipo) dbus)"

definition NewtonRaphson_init :: "Sistema \<Rightarrow> real \<Rightarrow> int \<Rightarrow> NewtonRaphson" where
  "NewtonRaphson_init sistema tol max_iter =
     (let dbus = sis_df_bus sistema in
      \<lparr>nr_V = map (\<lambda>r. (row_barra r, row_V r)) dbus,
       nr_theta = map (\<lambda>r. (row_barra r, row_Theta r)) dbus,
       nr_Ybus = sis_ybus sistema,
       nr_pot_esp = map (\<lambda>r. (row_barra r, row_P_esp r, row_Q_esp r)) dbus,
       nr_tol = tol,
       nr_max_iter = max_iter,
       nr_pq = barras_tipo dbus ''PQ'',
       nr_pv = barras_tipo dbus ''PV'',
       nr_swing = barras_tipo dbus ''SWING'',
       nr_index = map row_barra dbus\<rparr>)"

text \<open>
  One pass of the loop body of \<open>solve\<close>. The linear solver \<open>numpy.linalg.solve\<close> is a
  parameter: a function from the matrix and the right-hand side to the solution, or to
  the error it raises. The messages, the log and the export of the result to a file
  are not modelled.
\<close>

datatype passo = Convergiu | Corrigido Series Series

type_synonym linalg_solve = "real list list \<Rightarrow> real list \<Rightarrow> error + real list"

definition iteracao :: "linalg_solve \<Rightarrow> NewtonRaphson \<Rightarrow> error + passo" where
  "iteracao lsolve s =
     then_do (calc_injected_power (nr_Ybus s) (nr_V s) (nr_theta s)) (\<lambda>PQ.
     then_do (calc_delta_p (fst PQ) (nr_pot_esp s) (nr_index s) (nr_swing s)) (\<lambda>deltaP.
     then_do (calc_delta_q (snd PQ) (nr_pot_esp s) (nr_pq s) (nr_swing s)) (\<lambda>deltaQ.
     (let mismatch = map snd deltaP @ map snd deltaQ in
      then_do (check_convergence mismatch (nr_tol s)) (\<lambda>convergiu.
        if convergiu then Inr Convergiu
        else
          then_do (Jacobian_build (nr_V s) (nr_theta s)
                     (df_map Re (nr_Ybus s)) (df_map Im (nr_Ybus s)) (fst PQ) (snd PQ)
                     (nr_pq s) (nr_pv s) (nr_swing s) (nr_index s)) (\<lambda>J.
          then_do (lsolve J (map uminus mismatch)) (\<lambda>delta.
          then_do (apply_delta (nr_theta s) (nr_V s) delta (nr_index s) (nr_swing s) (nr_pq s))
            (\<lambda>tv. Inr (Corrigido (fst tv) (snd tv))))))))))"

text \<open>
  \<open>for iteration in range(self.max_iter)\<close>: \<open>solve_loop lsolve s iteration n\<close> runs the
  \<open>n\<close> passes that remain, the next one numbered \<open>iteration\<close>. The result is
  \<open>(V, theta, converged, iterations)\<close>.
\<close>

fun solve_loop ::
  "linalg_solve \<Rightarrow> NewtonRaphson \<Rightarrow> nat \<Rightarrow> nat \<Rightarrow> error + (Series \<times> Series \<times> bool \<times> int)" where
  "solve_loop lsolve s iteration 0 = Inr (nr_V s, nr_theta s, False, nr_max_iter s)"
| "solve_loop lsolve s iteration (Suc n) =
     (case iteracao lsolve s of
        Inl e \<Rightarrow> Inl e
      | Inr Convergiu \<Rightarrow> Inr (nr_V s, nr_theta s, True, int iteration + 1)
      | Inr (Corrigido theta' V') \<Rightarrow>
          solve_loop lsolve (s\<lparr>nr_theta := theta', nr_V := V'\<rparr>) (Suc iteration) n)"

definition solve :: "linalg_solve \<Rightarrow> NewtonRaphson \<Rightarrow> error + (Series \<times> Series \<times> bool \<times> int)" where
  "solve lsolve s = solve_loop lsolve s 0 (nat (nr_max_iter s))"

text \<open>
  The state after \<open>i\<close> passes that each corrected the state (a pass that converges or
  raises leaves it as it is).
\<close>

fun estado :: "linalg_solve \<Rightarrow> NewtonRaphson \<Rightarrow> nat \<Rightarrow> NewtonRaphson" where
  "estado lsolve s 0 = s"
| "estado lsolve s (Suc i) =
     (case iteracao lsolve s of
        Inr (Corrigido theta' V') \<Rightarrow> estado lsolve (s\<lparr>nr_theta := theta', nr_V := V'\<rparr>) i
      | _ \<Rightarrow> s)"

text \<open>
  What is taken of the linear solver: an answer has the length of the right-hand side
  and satisfies every equation of the system.
\<close>

definition dot :: "real list \<Rightarrow> real list \<Rightarrow> real" where
  "dot r xs = sum_list (map (\<lambda>(a, c). a * c) (zip r xs))"

definition exact_solver :: "linalg_solve \<Rightarrow> bool" where
  "exact_solver lsolve \<longleftrightarrow>
     (\<forall>J rhs sol. lsolve J rhs = Inr sol \<longrightarrow>
        length sol = length rhs \<and> (\<forall>i < length J. dot (J ! i) sol = rhs ! i))"

section \<open>A two-bus system\<close>

text \<open>
  A swing bus A and a load bus B joined by the lossless line of \<open>linha_AB\<close>, with a
  reactive load of 1/2 at B, and a linear solver that answers on the 4 x 4 identity
  matrix only.
\<close>

definition sistema_AB :: Sistema where
  "sistema_AB =
     \<lparr>sis_df_bus =
        [\<lparr>row_barra = ''A'', row_tipo = ''SWING'', row_V = 1, row_Theta = 0,
          row_P_esp = 0, row_Q_esp = 0\<rparr>,
         \<lparr>row_barra = ''B'', row_tipo = ''PQ'', row_V = 1, row_Theta = 0,
          row_P_esp = 0, row_Q_esp = - 1 / 2\<rparr>],
      sis_ybus = Y_AB\<rparr>"

definition solve_identidade4 :: linalg_solve where
  "solve_identidade4 J rhs =
     (if J = [[1, 0, 0, 0], [0, 1, 0, 0], [0, 0, 1, 0], [0, 0, 0, 1]] \<and> length rhs = 4
      then Inr rhs else Inl LinAlgError)"

section \<open>Properties of the admittance matrix\<close>

lemma acumula_append: "acumula ybus (ts @ us) = acumula (acumula ybus ts) us"
  by (induction ybus ts rule: acumula.induct) simp_all

lemma length_add_at: "length (add_at ybus i j y) = length ybus"
  by (simp add: add_at_def)

lemma length_row_add_at: "length (add_at ybus i j y ! k) = length (ybus ! k)"
  by (cases "i < length ybus"; cases "k = i") (simp_all add: add_at_def list_update_beyond)

lemma length_acumula: "length (acumula ybus ts) = length ybus"
  by (induction ybus ts rule: acumula.induct) (simp_all add: length_add_at)

lemma length_row_acumula: "length (acumula ybus ts ! k) = length (ybus ! k)"
  by (induction ybus ts rule: acumula.induct) (simp_all add: length_row_add_at)

lemma nth_add_at:
  "i < length ybus \<Longrightarrow> j < length (ybus ! i) \<Longrightarrow>
   add_at ybus a b y ! i ! j = ybus ! i ! j + (if a = i \<and> b = j then y else 0)"
  by (cases "a = i"; cases "b = j") (simp_all add: add_at_def)

lemma nth_acumula:
  "i < length ybus \<Longrightarrow> j < length (ybus ! i) \<Longrightarrow>
   acumula ybus ts ! i ! j = ybus ! i ! j + soma_em i j ts"
proof (induction ybus ts rule: acumula.induct)
  case (1 ybus)
  then show ?case by (simp add: soma_em_def)
next
  case (2 ybus a b y ts)
  then show ?case
    by (simp add: soma_em_def nth_add_at length_add_at length_row_add_at add.assoc)
qed

lemma loop_linhas_acumula:
  "loop_linhas barra_map ybus linhas = Inr y' \<Longrightarrow> y' = acumula ybus (termos_linhas barra_map linhas)"
proof (induction linhas arbitrary: ybus)
  case Nil
  then show ?case by (simp add: termos_linhas_def)
next
  case (Cons linha linhas)
  then show ?case
    by (auto simp: termos_linhas_def acumula_append split: sum.splits)
qed

lemma loop_trafos_acumula:
  "loop_trafos barra_map ybus trafos = Inr y' \<Longrightarrow> y' = acumula ybus (termos_trafos barra_map trafos)"
proof (induction trafos arbitrary: ybus)
  case Nil
  then show ?case by (simp add: termos_trafos_def)
next
  case (Cons trafo trafos)
  then show ?case
    by (auto simp: termos_trafos_def acumula_append split: sum.splits)
qed

lemma loop_shunts_acumula:
  "loop_shunts barra_map ybus shunts = acumula ybus (termos_shunts barra_map shunts)"
proof (induction shunts arbitrary: ybus)
  case Nil
  then show ?case by (simp add: termos_shunts_def)
next
  case (Cons shunt shunts)
  then show ?case
    by (auto simp: termos_shunts_def split: option.splits)
qed

lemma Ybus_values:
  assumes "Ybus linhas transformadores barras shunts = Inr Y"
  shows "df_values Y = acumula (zeros (length (barra_nomes_of barras)) (length (barra_nomes_of barras)))
           (contribuicoes linhas transformadores barras shunts)"
    and "df_index Y = barra_nomes_of barras" and "df_columns Y = barra_nomes_of barras"
  using assms
  by (auto simp: Ybus_def Let_def contribuicoes_def acumula_append loop_shunts_acumula
      dest!: loop_linhas_acumula loop_trafos_acumula split: sum.splits)

lemma soma_em_zero:
  "\<forall>t \<in> set ts. \<not> (fst t = i \<and> fst (snd t) = j) \<Longrightarrow> soma_em i j ts = 0"
  by (induction ts) (auto simp: soma_em_def)

text \<open>
  C10. Whatever the order and repetitions of the bus list, a matrix that is returned is
  square, its row and column labels are the sorted list of the distinct bus names, and an
  entry that no term of a line, transformer or shunt addresses is 0.
\<close>

theorem Ybus_sorted_labels_zero_entries:
  assumes "Ybus linhas transformadores barras shunts = Inr Y"
  shows "df_index Y = sort (remdups (map bus_nome barras))
       \<and> df_columns Y = sort (remdups (map bus_nome barras))
       \<and> sorted (df_index Y) \<and> distinct (df_index Y)
       \<and> set (df_index Y) = bus_nome ` set barras
       \<and> length (df_values Y) = length (df_index Y)
       \<and> (\<forall>i < length (df_index Y). length (df_values Y ! i) = length (df_index Y))
       \<and> (\<forall>i < length (df_index Y). \<forall>j < length (df_index Y).
            (\<forall>t \<in> set (contribuicoes linhas transformadores barras shunts).
               \<not> (fst t = i \<and> fst (snd t) = j))
            \<longrightarrow> df_values Y ! i ! j = 0)"
proof -
  let ?n = "length (barra_nomes_of barras)"
  note v = Ybus_values[OF assms]
  have z: "\<And>i j. i < ?n \<Longrightarrow> j < ?n \<Longrightarrow> zeros ?n ?n ! i ! j = 0"
    by (simp add: zeros_def)
  have lz: "length (zeros ?n ?n) = ?n" "\<And>i. i < ?n \<Longrightarrow> length (zeros ?n ?n ! i) = ?n"
    by (simp_all add: zeros_def)
  show ?thesis
    using v z lz
    by (auto simp: barra_nomes_of_def length_acumula length_row_acumula nth_acumula soma_em_zero)
qed

lemma nomes_AB: "barra_nomes_of [barra_A, barra_B] = [''A'', ''B'']"
  by code_simp

lemma nomes_ABC: "barra_nomes_of [barra_C, barra_A, barra_B, barra_A] = [''A'', ''B'', ''C'']"
  by code_simp

lemma inverse_j: "1 / Complex 0 1 = Complex 0 (- 1)"
  by (simp add: complex_eq_iff Re_divide Im_divide power2_eq_square)

lemma termos_linha_AB:
  "admitancia_linha linha_AB (barra_map_of [''A'', ''B'']) =
     Inr [(0, 0, Complex 0 (- 1)), (1, 1, Complex 0 (- 1)), (0, 1, Complex 0 1), (1, 0, Complex 0 1)]"
  by (simp add: admitancia_linha_def linha_AB_def dict_get_def py_inverse_def inverse_j
      barra_map_of_def upt_conv_Cons Let_def complex_eq_iff)

lemma termos_linha_AB3:
  "admitancia_linha linha_AB (barra_map_of [''A'', ''B'', ''C'']) =
     Inr [(0, 0, Complex 0 (- 1)), (1, 1, Complex 0 (- 1)), (0, 1, Complex 0 1), (1, 0, Complex 0 1)]"
  by (simp add: admitancia_linha_def linha_AB_def dict_get_def py_inverse_def inverse_j
      barra_map_of_def upt_conv_Cons Let_def complex_eq_iff)

lemma admitancia_linha_status:
  "admitancia_linha (linha\<lparr>line_status := s\<rparr>) barra_map = admitancia_linha linha barra_map"
  by (simp add: admitancia_linha_def split: sum.splits)

lemma admitancia_transformador_status:
  "admitancia_transformador (trafo\<lparr>trafo_status := s\<rparr>) barra_map
     = admitancia_transformador trafo barra_map"
  by (simp add: admitancia_transformador_def trafo_a_def split: sum.splits)

lemma Ybus_linha_desligada: "Ybus [linha_desligada] [] [barra_A, barra_B] [] = Inr Y_AB"
  by (simp add: Ybus_def nomes_AB linha_desligada_def admitancia_linha_status Let_def
      termos_linha_AB zeros_def add_at_def Y_AB_def numeral_2_eq_2)

text \<open>
  C1. An out-of-service line still contributes: neither loop over the branch elements
  reads the status field (only the shunt loop does), so the matrix built with a line of
  status False between A and B differs from the matrix built from the in-service
  elements alone.
\<close>

theorem Ybus_off_line_still_contributes:
  "Ybus [linha_desligada] [] [barra_A, barra_B] [] = Inr Y_AB
   \<and> Ybus (filter line_status [linha_desligada]) (filter trafo_status []) [barra_A, barra_B] []
       = Inr (Y_AB\<lparr>df_values := [[0, 0], [0, 0]]\<rparr>)
   \<and> Ybus [linha_desligada] [] [barra_A, barra_B] []
       \<noteq> Ybus (filter line_status [linha_desligada]) (filter trafo_status []) [barra_A, barra_B] []"
proof -
  have off: "filter line_status [linha_desligada] = []"
    by (simp add: linha_desligada_def)
  have e: "Ybus [] [] [barra_A, barra_B] [] = Inr (Y_AB\<lparr>df_values := [[0, 0], [0, 0]]\<rparr>)"
    by (simp add: Ybus_def nomes_AB zeros_def Y_AB_def Let_def numeral_2_eq_2)
  have "Y_AB \<noteq> Y_AB\<lparr>df_values := [[0, 0], [0, 0]]\<rparr>"
    by (simp add: Y_AB_def complex_eq_iff)
  then show ?thesis
    using off e Ybus_linha_desligada by simp
qed

lemma Ybus_ABC: "Ybus [linha_AB] [] [barra_C, barra_A, barra_B, barra_A] [] = Inr Y_ABC"
  by (simp add: Ybus_def nomes_ABC termos_linha_AB3 zeros_def add_at_def Y_ABC_def Let_def
      numeral_3_eq_3)

lemma contribuicoes_ABC:
  "contribuicoes [linha_AB] [] [barra_C, barra_A, barra_B, barra_A] [] =
     [(0, 0, Complex 0 (- 1)), (1, 1, Complex 0 (- 1)), (0, 1, Complex 0 1), (1, 0, Complex 0 1)]"
  by (simp add: contribuicoes_def nomes_ABC termos_linhas_def termos_trafos_def
      termos_shunts_def termos_linha_AB3 Let_def)

text \<open>The theorem of C10 on three buses given out of order, one of them twice.\<close>

theorem Ybus_sorted_labels_zero_entries_witness:
  "Ybus [linha_AB] [] [barra_C, barra_A, barra_B, barra_A] [] = Inr Y_ABC
   \<and> df_index Y_ABC = [''A'', ''B'', ''C''] \<and> df_columns Y_ABC = [''A'', ''B'', ''C'']
   \<and> df_values Y_ABC ! 0 ! 2 = 0"
proof -
  have n: "df_index Y_ABC = [''A'', ''B'', ''C'']" "df_columns Y_ABC = [''A'', ''B'', ''C'']"
    by (simp_all add: Y_ABC_def)
  have "\<forall>i < 3. \<forall>j < 3.
          (\<forall>t \<in> set (contribuicoes [linha_AB] [] [barra_C, barra_A, barra_B, barra_A] []).
             \<not> (fst t = i \<and> fst (snd t) = j)) \<longrightarrow> df_values Y_ABC ! i ! j = 0"
    using Ybus_sorted_labels_zero_entries [OF Ybus_ABC] n by simp
  then have "df_values Y_ABC ! 0 ! 2 = 0"
    by (simp add: contribuicoes_ABC)
  then show ?thesis
    using Ybus_ABC n by simp
qed


lemma trafo_a_cis: "trafo_a trafo = complex_of_real (trafo_tap trafo) * cis (trafo_fase trafo * pi / 180)"
  by (simp add: trafo_a_def deg2rad_def cis_conv_exp)

lemma trafo_a_spec_cis: "trafo_a_spec trafo = complex_of_real (trafo_tap trafo) * cis (trafo_fase trafo)"
  by (simp add: trafo_a_spec_def cis_conv_exp)

lemma admitancia_transformador_terms:
  assumes "barra_map (trafo_de trafo) = Some i" and "barra_map (trafo_para trafo) = Some j"
    and "Complex (trafo_r trafo) (trafo_x trafo) \<noteq> 0"
  shows "admitancia_transformador trafo barra_map =
     (let y = 1 / Complex (trafo_r trafo) (trafo_x trafo);
          b = Complex 0 (trafo_b trafo / 2);
          a = complex_of_real (trafo_tap trafo) * cis (trafo_fase trafo * pi / 180)
      in Inr [(i, i, y / (a * cnj a) + b), (i, j, - y / cnj a), (j, i, - y / a), (j, j, y + b)])"
  using assms
  by (simp add: admitancia_transformador_def dict_get_def py_inverse_def trafo_a_cis Let_def)

lemma cis_one_degree: "cis (pi / 180) \<noteq> cis 1"
proof
  assume "cis (pi / 180) = cis 1"
  then have "Re (cis (pi / 180)) = Re (cis 1)" by simp
  then have c: "cos (pi / 180) = cos 1" by simp
  have "pi / 180 = 1"
  proof (rule cos_inj_pi [OF _ _ _ _ c])
    show "0 \<le> pi / 180" by simp
    show "pi / 180 \<le> pi" using pi_gt_zero by simp
    show "(0::real) \<le> 1" by simp
    show "1 \<le> pi" using pi_ge_two by simp
  qed
  then show False using pi_less_4 by simp
qed

text \<open>
  C4. The phase attribute, documented as radians, is converted with deg2rad before it
  enters the complex tap: for a transformer with tap 1 and phase 1 the terms are those of
  the angle pi/180, not those of the angle 1 that the stated formulas give.
\<close>

theorem admitancia_transformador_fase_degrees:
  "admitancia_transformador trafo_AB (barra_map_of [''A'', ''B'']) =
     Inr [(0, 0, Complex 0 (- 1) / (cis (pi / 180) * cnj (cis (pi / 180)))),
          (0, 1, - Complex 0 (- 1) / cnj (cis (pi / 180))),
          (1, 0, - Complex 0 (- 1) / cis (pi / 180)),
          (1, 1, Complex 0 (- 1))]
   \<and> termos_trafo_spec trafo_AB 0 1 =
         [(0, 0, Complex 0 (- 1) / (cis 1 * cnj (cis 1))),
          (0, 1, - Complex 0 (- 1) / cnj (cis 1)),
          (1, 0, - Complex 0 (- 1) / cis 1),
          (1, 1, Complex 0 (- 1))]
   \<and> admitancia_transformador trafo_AB (barra_map_of [''A'', ''B''])
       \<noteq> Inr (termos_trafo_spec trafo_AB 0 1)"
proof -
  have m: "barra_map_of [''A'', ''B''] (trafo_de trafo_AB) = Some 0"
    "barra_map_of [''A'', ''B''] (trafo_para trafo_AB) = Some 1"
    by (simp_all add: barra_map_of_def trafo_AB_def upt_conv_Cons)
  have z: "Complex (trafo_r trafo_AB) (trafo_x trafo_AB) \<noteq> 0"
    by (simp add: trafo_AB_def complex_eq_iff)
  have code: "admitancia_transformador trafo_AB (barra_map_of [''A'', ''B'']) =
     Inr [(0, 0, Complex 0 (- 1) / (cis (pi / 180) * cnj (cis (pi / 180)))),
          (0, 1, - Complex 0 (- 1) / cnj (cis (pi / 180))),
          (1, 0, - Complex 0 (- 1) / cis (pi / 180)),
          (1, 1, Complex 0 (- 1))]"
    unfolding admitancia_transformador_terms [OF m z]
    by (simp add: trafo_AB_def inverse_j Let_def zero_complex.code)
  have spec: "termos_trafo_spec trafo_AB 0 1 =
         [(0, 0, Complex 0 (- 1) / (cis 1 * cnj (cis 1))),
          (0, 1, - Complex 0 (- 1) / cnj (cis 1)),
          (1, 0, - Complex 0 (- 1) / cis 1),
          (1, 1, Complex 0 (- 1))]"
    by (simp add: termos_trafo_spec_def trafo_a_spec_cis trafo_AB_def inverse_j Let_def
        zero_complex.code)
  have j: "Complex 0 (- 1) \<noteq> 0"
    by (simp add: complex_eq_iff)
  have "- Complex 0 (- 1) / cis (pi / 180) \<noteq> - Complex 0 (- 1) / cis 1"
  proof
    assume "- Complex 0 (- 1) / cis (pi / 180) = - Complex 0 (- 1) / cis 1"
    then have "cis (pi / 180) = cis 1"
      using j by (simp add: field_simps)
    then show False using cis_one_degree by simp
  qed
  then show ?thesis
    using code spec by simp
qed

section \<open>State update and mismatch vectors\<close>

lemma then_do_Inr: "then_do m f = Inr r \<longleftrightarrow> (\<exists>v. m = Inr v \<and> f v = Inr r)"
  by (cases m) (simp_all add: then_do_def)

lemma then_do_simps: "then_do (Inr v) f = f v" "then_do (Inl e) f = Inl e"
  by (simp_all add: then_do_def)

lemma map_fst_series_set: "map fst (series_set s k v) = map fst s"
  by (induction s) (auto simp: series_set_def)

lemma map_of_series_set:
  "map_of (series_set s k v) b = (if b = k then map_option (\<lambda>_. v) (map_of s b) else map_of s b)"
  by (induction s) (auto simp: series_set_def)

lemma series_loc_Inr: "series_loc s k = Inr v \<longleftrightarrow> map_of s k = Some v"
  by (simp add: series_loc_def split: option.splits)

lemma loop_sub_labels: "loop_sub s d i nomes = Inr s' \<Longrightarrow> map fst s' = map fst s"
proof (induction nomes arbitrary: s i)
  case Nil
  then show ?case by simp
next
  case (Cons nome nomes)
  then show ?case
    by (auto simp: map_fst_series_set split: sum.splits if_splits)
qed

lemma loop_sub_other:
  "loop_sub s d i nomes = Inr s' \<Longrightarrow> b \<notin> set nomes \<Longrightarrow> map_of s' b = map_of s b"
proof (induction nomes arbitrary: s i)
  case Nil
  then show ?case by simp
next
  case (Cons nome nomes)
  then show ?case
    by (auto simp: map_of_series_set split: sum.splits if_splits)
qed

lemma loop_sub_nth:
  "distinct nomes \<Longrightarrow> loop_sub s d i nomes = Inr s' \<Longrightarrow> j < length nomes \<Longrightarrow>
   map_of s' (nomes ! j) = map_option (\<lambda>v. v - d ! (i + j)) (map_of s (nomes ! j))"
proof (induction nomes arbitrary: s i j)
  case Nil
  then show ?case by simp
next
  case (Cons nome nomes)
  from Cons.prems(2) obtain v where v: "map_of s nome = Some v" and i: "i < length d"
    and rest: "loop_sub (series_set s nome (v - d ! i)) d (Suc i) nomes = Inr s'"
    by (auto simp: series_loc_Inr split: sum.splits if_splits)
  show ?case
  proof (cases j)
    case 0
    have "nome \<notin> set nomes" using Cons.prems(1) by simp
    from loop_sub_other [OF rest this] v 0 show ?thesis
      by (simp add: map_of_series_set)
  next
    case (Suc j')
    then have j': "j' < length nomes" using Cons.prems(3) by simp
    have ne: "nomes ! j' \<noteq> nome" using Cons.prems(1) j' by auto
    from Cons.IH [OF _ rest j'] Cons.prems(1) ne Suc show ?thesis
      by (simp add: map_of_series_set)
  qed
qed

text \<open>
  C3. When apply_delta returns, the magnitude of every bus outside swing + pq (every PV
  bus) is the one it had, the labels of both vectors are unchanged, and with distinct
  names in index the angle of the bus at position i is corrected by delta[i].
\<close>

theorem apply_delta_pv_magnitude:
  assumes "apply_delta theta V delta index swing pq = Inr (theta', V')"
  shows "(\<forall>b. b \<notin> set (swing @ pq) \<longrightarrow> map_of V' b = map_of V b)
       \<and> map fst V' = map fst V \<and> map fst theta' = map fst theta
       \<and> (distinct index \<longrightarrow>
            (\<forall>i < length index. map_of theta' (index ! i)
                 = map_option (\<lambda>v. v - delta ! i) (map_of theta (index ! i))))"
proof -
  from assms have t: "loop_sub theta (take (length index) delta) 0 index = Inr theta'"
    and v: "loop_sub V (take (length (swing @ pq)) (drop (length index) delta)) 0 (swing @ pq) = Inr V'"
    by (auto simp: apply_delta_def split_corrections_def then_do_Inr)
  have "\<forall>b. b \<notin> set (swing @ pq) \<longrightarrow> map_of V' b = map_of V b"
    using loop_sub_other [OF v] by blast
  moreover have "map fst V' = map fst V" "map fst theta' = map fst theta"
    using loop_sub_labels [OF v] loop_sub_labels [OF t] by simp_all
  moreover have "distinct index \<longrightarrow>
            (\<forall>i < length index. map_of theta' (index ! i)
                 = map_option (\<lambda>v. v - delta ! i) (map_of theta (index ! i)))"
    using loop_sub_nth [OF _ t] by simp
  ultimately show ?thesis by blast
qed

lemma loop_delta_ok:
  "\<forall>k \<in> set ks. esp k = Some (e k) \<and> calc k = Some (c k) \<Longrightarrow>
   loop_delta esp calc ks = Inr (map (\<lambda>k. (k, e k - c k)) ks)"
  by (induction ks) (simp_all add: then_do_simps)

lemma zera_swing_eq:
  "zera_swing d swing = map (\<lambda>(k, v). (k, if k \<in> set swing then 0 else v)) d"
proof (induction swing arbitrary: d)
  case Nil
  then show ?case by simp
next
  case (Cons barra swing)
  have "series_set d barra 0 = map (\<lambda>(k, v). (k, if k = barra then 0 else v)) d"
    by (auto simp: series_set_def)
  moreover have "barra \<notin> set (map fst d) \<Longrightarrow> d = map (\<lambda>(k, v). (k, if k = barra then 0 else v)) d"
    by (induction d) auto
  ultimately have "(if barra \<in> set (map fst d) then series_set d barra 0 else d)
      = map (\<lambda>(k, v). (k, if k = barra then 0 else v)) d"
    by presburger
  then show ?case
    using Cons.IH by (auto simp: comp_def split: prod.splits)
qed

text \<open>
  C6. With every bus of index in the table of specified powers and in P, and every bus of
  swing + pq in the table and in Q, the active mismatch has one entry per bus of index,
  P_esp[k] - P[k], the reactive mismatch one entry per bus of swing + pq, Q_esp[k] - Q[k],
  and the entries of swing buses are 0 in both.
\<close>

theorem calc_delta_values:
  assumes "\<forall>k \<in> set index. map_of pot_esp k = Some (Pesp k, Qesp k) \<and> map_of P k = Some (Pc k)"
    and "\<forall>k \<in> set (swing @ pq). map_of pot_esp k = Some (Pesp k, Qesp k) \<and> map_of Q k = Some (Qc k)"
  shows "calc_delta_p P pot_esp index swing
           = Inr (map (\<lambda>k. (k, if k \<in> set swing then 0 else Pesp k - Pc k)) index)
       \<and> calc_delta_q Q pot_esp pq swing
           = Inr (map (\<lambda>k. (k, if k \<in> set swing then 0 else Qesp k - Qc k)) (swing @ pq))"
proof -
  have p: "loop_delta (\<lambda>k. map_option fst (map_of pot_esp k)) (map_of P) index
             = Inr (map (\<lambda>k. (k, Pesp k - Pc k)) index)"
    by (rule loop_delta_ok) (use assms(1) in auto)
  have q: "loop_delta (\<lambda>k. map_option snd (map_of pot_esp k)) (map_of Q) (swing @ pq)
             = Inr (map (\<lambda>k. (k, Qesp k - Qc k)) (swing @ pq))"
    by (rule loop_delta_ok) (use assms(2) in auto)
  show ?thesis
    by (simp add: calc_delta_p_def calc_delta_q_def p q then_do_simps zera_swing_eq comp_def)
qed

lemma loop_delta_first_missing:
  "\<forall>k \<in> set ks. calc k \<noteq> None \<Longrightarrow>
   (case find (\<lambda>k. esp k = None) ks of
      Some k \<Rightarrow> loop_delta esp calc ks = Inl (KeyError k)
    | None \<Rightarrow> (\<exists>d. loop_delta esp calc ks = Inr d))"
proof (induction ks)
  case Nil
  then show ?case by simp
next
  case (Cons k ks)
  then show ?case
    by (cases "esp k"; cases "find (\<lambda>k. esp k = None) ks")
       (auto simp: then_do_simps)
qed

text \<open>
  C7, amended. When the computed vector holds every requested bus, a requested bus absent
  from the table of specified powers makes the function raise the KeyError that names the
  first such bus, and with every requested bus in the table no error is raised.
\<close>

theorem calc_delta_missing_bus:
  assumes "\<forall>k \<in> set index. map_of P k \<noteq> None" and "\<forall>k \<in> set (swing @ pq). map_of Q k \<noteq> None"
  shows "(case find (\<lambda>k. map_of pot_esp k = None) index of
            Some k \<Rightarrow> calc_delta_p P pot_esp index swing = Inl (KeyError k)
          | None \<Rightarrow> (\<exists>d. calc_delta_p P pot_esp index swing = Inr d))
       \<and> (case find (\<lambda>k. map_of pot_esp k = None) (swing @ pq) of
            Some k \<Rightarrow> calc_delta_q Q pot_esp pq swing = Inl (KeyError k)
          | None \<Rightarrow> (\<exists>d. calc_delta_q Q pot_esp pq swing = Inr d))"
proof -
  have p: "case find (\<lambda>k. map_option fst (map_of pot_esp k) = None) index of
            Some k \<Rightarrow> loop_delta (\<lambda>k. map_option fst (map_of pot_esp k)) (map_of P) index = Inl (KeyError k)
          | None \<Rightarrow> (\<exists>d. loop_delta (\<lambda>k. map_option fst (map_of pot_esp k)) (map_of P) index = Inr d)"
    by (rule loop_delta_first_missing) (use assms(1) in auto)
  have q: "case find (\<lambda>k. map_option snd (map_of pot_esp k) = None) (swing @ pq) of
            Some k \<Rightarrow> loop_delta (\<lambda>k. map_option snd (map_of pot_esp k)) (map_of Q) (swing @ pq) = Inl (KeyError k)
          | None \<Rightarrow> (\<exists>d. loop_delta (\<lambda>k. map_option snd (map_of pot_esp k)) (map_of Q) (swing @ pq) = Inr d)"
    by (rule loop_delta_first_missing) (use assms(2) in auto)
  show ?thesis
    using p q
    by (auto simp: calc_delta_p_def calc_delta_q_def then_do_def split: option.splits)
qed


text \<open>The theorem of C3 on a swing bus A, a PQ bus B and a PV bus C.\<close>

theorem apply_delta_pv_magnitude_witness:
  "apply_delta [(''A'', 0), (''B'', 0), (''C'', 0)] [(''A'', 1), (''B'', 1), (''C'', 1)]
       [0, 1 / 10, 1 / 5, 0, 3 / 10] [''A'', ''B'', ''C''] [''A''] [''B'']
     = Inr ([(''A'', 0), (''B'', - 1 / 10), (''C'', - 1 / 5)], [(''A'', 1), (''B'', 7 / 10), (''C'', 1)])
   \<and> map_of [(''A'', 1), (''B'', 7 / 10), (''C'', 1::real)] ''C'' = Some 1
   \<and> map_of [(''A'', 0), (''B'', - 1 / 10), (''C'', - 1 / 5 :: real)] ''C'' = Some (0 - 1 / 5)"
proof -
  have run: "apply_delta [(''A'', 0), (''B'', 0), (''C'', 0)] [(''A'', 1), (''B'', 1), (''C'', 1)]
       [0, 1 / 10, 1 / 5, 0, 3 / 10] [''A'', ''B'', ''C''] [''A''] [''B'']
     = Inr ([(''A'', 0), (''B'', - 1 / 10), (''C'', - 1 / 5)], [(''A'', 1), (''B'', 7 / 10), (''C'', 1)])"
    by (simp add: apply_delta_def split_corrections_def then_do_def series_loc_def series_set_def)
  have "''C'' \<notin> set ([''A''] @ [''B''])" by simp
  then have "map_of [(''A'', 1), (''B'', 7 / 10), (''C'', 1::real)] ''C''
      = map_of [(''A'', 1), (''B'', 1), (''C'', 1::real)] ''C''"
    using apply_delta_pv_magnitude [OF run] by blast
  moreover have "distinct [''A'', ''B'', ''C'']" by simp
  then have "map_of [(''A'', 0), (''B'', - 1 / 10), (''C'', - 1 / 5 :: real)] ([''A'', ''B'', ''C''] ! 2)
      = map_option (\<lambda>v. v - [0, 1 / 10, 1 / 5, 0, 3 / 10] ! 2)
          (map_of [(''A'', 0), (''B'', 0), (''C'', 0)] ([''A'', ''B'', ''C''] ! 2))"
    using apply_delta_pv_magnitude [OF run] by simp
  ultimately show ?thesis
    using run by simp
qed

text \<open>The theorem of C6 on a swing bus A, a PQ bus B and a PV bus C.\<close>

theorem calc_delta_values_witness:
  "calc_delta_p [(''A'', 2), (''B'', 1 / 2), (''C'', 1)]
       [(''A'', 0, 0), (''B'', - 1, - 1 / 2), (''C'', 3, 0)] [''A'', ''B'', ''C''] [''A'']
     = Inr [(''A'', 0), (''B'', - 3 / 2), (''C'', 2)]
   \<and> calc_delta_q [(''A'', 1), (''B'', 1 / 4), (''C'', 5)]
       [(''A'', 0, 0), (''B'', - 1, - 1 / 2), (''C'', 3, 0)] [''B''] [''A'']
     = Inr [(''A'', 0), (''B'', - 3 / 4)]"
proof -
  let ?pot = "[(''A'', 0, 0), (''B'', - 1, - 1 / 2), (''C'', 3, 0)] :: PotEsp"
  let ?P = "[(''A'', 2), (''B'', 1 / 2), (''C'', 1)] :: Series"
  let ?Q = "[(''A'', 1), (''B'', 1 / 4), (''C'', 5)] :: Series"
  let ?Pesp = "\<lambda>k. fst (the (map_of ?pot k))"
  let ?Qesp = "\<lambda>k. snd (the (map_of ?pot k))"
  let ?Pc = "\<lambda>k. the (map_of ?P k)"
  let ?Qc = "\<lambda>k. the (map_of ?Q k)"
  have 1: "\<forall>k \<in> set [''A'', ''B'', ''C'']. map_of ?pot k = Some (?Pesp k, ?Qesp k) \<and> map_of ?P k = Some (?Pc k)"
    by simp
  have 2: "\<forall>k \<in> set ([''A''] @ [''B'']). map_of ?pot k = Some (?Pesp k, ?Qesp k) \<and> map_of ?Q k = Some (?Qc k)"
    by simp
  show ?thesis
    using calc_delta_values [OF 1 2] by simp
qed

text \<open>
  C7 as stated fails: the table holds the requested bus A, the computed vector does not,
  and the KeyError naming A is raised all the same, since one try block covers both reads.
\<close>

theorem calc_delta_p_complete_table_still_raises:
  "set [''A''] \<subseteq> fst ` set [(''A'', 1 :: real, 1 :: real)]
   \<and> calc_delta_p [(''B'', 0)] [(''A'', 1, 1)] [''A''] [] = Inl (KeyError ''A'')"
  by (simp add: calc_delta_p_def then_do_def)

text \<open>The theorem of C7 with bus B missing from the table, and with a complete table.\<close>

theorem calc_delta_missing_bus_witness:
  "calc_delta_p [(''A'', 0), (''B'', 0)] [(''A'', 1, 1)] [''A'', ''B''] [''A''] = Inl (KeyError ''B'')
   \<and> calc_delta_q [(''A'', 0), (''B'', 0)] [(''A'', 1, 1)] [''B''] [''A''] = Inl (KeyError ''B'')
   \<and> (\<exists>d. calc_delta_p [(''A'', 0), (''B'', 0)] [(''A'', 1, 1), (''B'', 2, 2)] [''A'', ''B''] [''A''] = Inr d)
   \<and> (\<exists>d. calc_delta_q [(''A'', 0), (''B'', 0)] [(''A'', 1, 1), (''B'', 2, 2)] [''B''] [''A''] = Inr d)"
proof -
  let ?P = "[(''A'', 0), (''B'', 0)] :: Series"
  have 1: "\<forall>k \<in> set [''A'', ''B'']. map_of ?P k \<noteq> None" by simp
  have 2: "\<forall>k \<in> set ([''A''] @ [''B'']). map_of ?P k \<noteq> None" by simp
  show ?thesis
    using calc_delta_missing_bus [OF 1 2, of "[(''A'', 1, 1)]"]
      calc_delta_missing_bus [OF 1 2, of "[(''A'', 1, 1), (''B'', 2, 2)]"]
    by simp
qed

section \<open>Injected powers\<close>

lemma get_loc_less: "k \<in> set xs \<Longrightarrow> get_loc xs k < length xs"
  by (induction xs) auto

lemma nth_get_loc: "k \<in> set xs \<Longrightarrow> xs ! get_loc xs k = k"
  by (induction xs) auto

lemma find_absent_None: "find (\<lambda>k. k \<notin> set ys) xs = None \<longleftrightarrow> set xs \<subseteq> set ys"
  by (auto simp: find_None_iff)

lemma df_reindex_Inr:
  "df_reindex F ordem = Inr F' \<longleftrightarrow>
     set ordem \<subseteq> set (df_index F) \<and> set ordem \<subseteq> set (df_columns F)
     \<and> F' = \<lparr>df_index = ordem, df_columns = ordem,
              df_values = map (\<lambda>k. map (\<lambda>m. cell F k m) ordem) ordem\<rparr>"
proof (cases "find (\<lambda>k. k \<notin> set (df_index F)) ordem")
  case None
  then have r: "set ordem \<subseteq> set (df_index F)" by (simp add: find_absent_None)
  show ?thesis
  proof (cases "find (\<lambda>k. k \<notin> set (df_columns F)) ordem")
    case None2: None
    then have "set ordem \<subseteq> set (df_columns F)" by (simp add: find_absent_None)
    then show ?thesis using None None2 r by (auto simp: df_reindex_def cell_def)
  next
    case (Some k)
    then have "\<not> set ordem \<subseteq> set (df_columns F)"
      using find_absent_None [of "df_columns F" ordem] by simp
    then show ?thesis using None Some by (simp add: df_reindex_def)
  qed
next
  case (Some k)
  then have "\<not> set ordem \<subseteq> set (df_index F)"
    using find_absent_None [of "df_index F" ordem] by simp
  then show ?thesis using Some by (simp add: df_reindex_def)
qed

lemma df_reindex_Inl:
  "df_reindex F ordem = Inl e \<Longrightarrow>
     \<exists>k \<in> set ordem. e = KeyError k \<and> (k \<notin> set (df_index F) \<or> k \<notin> set (df_columns F))"
  by (auto simp: df_reindex_def find_Some_iff split: option.splits)

lemma df_loc_reindexed:
  "k \<in> set ordem \<Longrightarrow> m \<in> set ordem \<Longrightarrow>
   df_loc \<lparr>df_index = ordem, df_columns = ordem,
           df_values = map (\<lambda>k. map (\<lambda>m. f k m) ordem) ordem\<rparr> k m = Inr (f k m)"
  by (simp add: df_loc_def get_loc_less nth_get_loc)

lemma cell_df_map:
  "df_wf F \<Longrightarrow> k \<in> set (df_index F) \<Longrightarrow> m \<in> set (df_columns F) \<Longrightarrow>
   cell (df_map f F) k m = f (cell F k m)"
  by (simp add: cell_def df_map_def df_wf_def get_loc_less)

lemma pq_term_ok:
  assumes "map_of V k = Some (v k)" "map_of V m = Some (v m)"
    and "map_of theta k = Some (t k)" "map_of theta m = Some (t m)"
    and "df_loc G k m = Inr (g k m)" "df_loc B k m = Inr (b k m)"
  shows "pq_term G B V theta k m =
     Inr (v k * v m * (g k m * cos (t k - t m) + b k m * sin (t k - t m)),
          v k * v m * (g k m * sin (t k - t m) - b k m * cos (t k - t m)))"
  using assms by (simp add: pq_term_def series_loc_def then_do_def)

lemma loop_m_ok:
  assumes "\<forall>k \<in> set ordem. map_of V k = Some (v k) \<and> map_of theta k = Some (t k)"
    and "\<forall>k \<in> set ordem. \<forall>m \<in> set ordem. df_loc G k m = Inr (g k m) \<and> df_loc B k m = Inr (b k m)"
    and "k \<in> set ordem" and "set ms \<subseteq> set ordem"
  shows "loop_m G B V theta k acc ms =
     Inr (fst acc + P_inj v t g b ms k, snd acc + Q_inj v t g b ms k)"
  using assms(4)
proof (induction ms arbitrary: acc)
  case Nil
  then show ?case by (simp add: P_inj_def Q_inj_def)
next
  case (Cons m ms)
  then have m: "m \<in> set ordem" and ms: "set ms \<subseteq> set ordem" by simp_all
  have "pq_term G B V theta k m =
     Inr (v k * v m * (g k m * cos (t k - t m) + b k m * sin (t k - t m)),
          v k * v m * (g k m * sin (t k - t m) - b k m * cos (t k - t m)))"
    by (rule pq_term_ok) (use assms(1,2,3) m in auto)
  then show ?case
    using Cons.IH [OF ms] by (simp add: then_do_def P_inj_def Q_inj_def add.assoc)
qed

lemma loop_k_ok:
  assumes "\<forall>k \<in> set ordem. map_of V k = Some (v k) \<and> map_of theta k = Some (t k)"
    and "\<forall>k \<in> set ordem. \<forall>m \<in> set ordem. df_loc G k m = Inr (g k m) \<and> df_loc B k m = Inr (b k m)"
    and "set ks \<subseteq> set ordem"
  shows "loop_k G B V theta ordem ks =
     Inr (map (\<lambda>k. (k, P_inj v t g b ordem k)) ks, map (\<lambda>k. (k, Q_inj v t g b ordem k)) ks)"
  using assms(3)
proof (induction ks)
  case Nil
  then show ?case by simp
next
  case (Cons k ks)
  then have k: "k \<in> set ordem" and ks: "set ks \<subseteq> set ordem" by simp_all
  have "loop_m G B V theta k (0, 0) ordem =
     Inr (fst (0::real, 0::real) + P_inj v t g b ordem k, snd (0::real, 0::real) + Q_inj v t g b ordem k)"
    by (rule loop_m_ok [OF assms(1,2) k]) simp
  then show ?case
    using Cons.IH [OF ks] by (simp add: then_do_def)
qed

lemma calc_injected_power_by_name:
  assumes rows: "set (map fst V) \<subseteq> set (df_index Y)" and cols: "set (map fst V) \<subseteq> set (df_columns Y)"
    and th: "map fst theta = map fst V"
    and rep: "\<forall>k \<in> set (map fst V). map_of V k = Some (v k) \<and> map_of theta k = Some (t k)"
  shows "calc_injected_power Y V theta =
     Inr (map (\<lambda>k. (k, P_inj v t (cell (df_map Re Y)) (cell (df_map Im Y)) (map fst V) k)) (map fst V),
          map (\<lambda>k. (k, Q_inj v t (cell (df_map Re Y)) (cell (df_map Im Y)) (map fst V) k)) (map fst V))"
proof -
  let ?o = "map fst V"
  let ?G = "\<lparr>df_index = ?o, df_columns = ?o, df_values = map (\<lambda>k. map (\<lambda>m. cell (df_map Re Y) k m) ?o) ?o\<rparr>"
  let ?B = "\<lparr>df_index = ?o, df_columns = ?o, df_values = map (\<lambda>k. map (\<lambda>m. cell (df_map Im Y) k m) ?o) ?o\<rparr>"
  have G: "df_reindex (df_map Re Y) ?o = Inr ?G"
    unfolding df_reindex_Inr using rows cols by (simp add: df_map_def)
  have B: "df_reindex (df_map Im Y) ?o = Inr ?B"
    unfolding df_reindex_Inr using rows cols by (simp add: df_map_def)
  have loc: "\<forall>k \<in> set ?o. \<forall>m \<in> set ?o.
      df_loc ?G k m = Inr (cell (df_map Re Y) k m) \<and> df_loc ?B k m = Inr (cell (df_map Im Y) k m)"
    using df_loc_reindexed [of _ ?o _ "cell (df_map Re Y)"]
      df_loc_reindexed [of _ ?o _ "cell (df_map Im Y)"] by blast
  have "loop_k ?G ?B V theta ?o ?o =
     Inr (map (\<lambda>k. (k, P_inj v t (cell (df_map Re Y)) (cell (df_map Im Y)) ?o k)) ?o,
          map (\<lambda>k. (k, Q_inj v t (cell (df_map Re Y)) (cell (df_map Im Y)) ?o k)) ?o)"
    by (rule loop_k_ok [OF rep loc]) simp
  then show ?thesis
    unfolding calc_injected_power_def Let_def G B using th
    by (simp add: then_do_def)
qed

lemma map_of_the: "k \<in> set (map fst s) \<Longrightarrow> map_of s k = Some (the (map_of s k))"
  by (cases "map_of s k") (auto simp: map_of_eq_None_iff)

lemma calc_injected_power_values:
  assumes wf: "df_wf Y"
    and rows: "set (map fst V) \<subseteq> set (df_index Y)" and cols: "set (map fst V) \<subseteq> set (df_columns Y)"
    and th: "map fst theta = map fst V"
    and rep: "\<forall>k \<in> set (map fst V). map_of V k = Some (v k) \<and> map_of theta k = Some (t k)"
  shows "calc_injected_power Y V theta =
     Inr (map (\<lambda>k. (k, P_inj v t (\<lambda>k m. Re (cell Y k m)) (\<lambda>k m. Im (cell Y k m)) (map fst V) k)) (map fst V),
          map (\<lambda>k. (k, Q_inj v t (\<lambda>k m. Re (cell Y k m)) (\<lambda>k m. Im (cell Y k m)) (map fst V) k)) (map fst V))"
proof -
  have c: "\<And>k m f. k \<in> set (map fst V) \<Longrightarrow> m \<in> set (map fst V) \<Longrightarrow> cell (df_map f Y) k m = f (cell Y k m)"
    using cell_df_map [OF wf] rows cols by blast
  have "\<And>k. k \<in> set (map fst V) \<Longrightarrow>
      P_inj v t (cell (df_map Re Y)) (cell (df_map Im Y)) (map fst V) k
        = P_inj v t (\<lambda>k m. Re (cell Y k m)) (\<lambda>k m. Im (cell Y k m)) (map fst V) k
      \<and> Q_inj v t (cell (df_map Re Y)) (cell (df_map Im Y)) (map fst V) k
        = Q_inj v t (\<lambda>k m. Re (cell Y k m)) (\<lambda>k m. Im (cell Y k m)) (map fst V) k"
    unfolding P_inj_def Q_inj_def
    by (intro conjI arg_cong [where f = sum_list] map_cong refl) (simp_all add: c)
  then show ?thesis
    unfolding calc_injected_power_by_name [OF rows cols th rep] by simp
qed

lemma calc_injected_power_outcomes:
  "((\<exists>P Q. calc_injected_power Y V theta = Inr (P, Q)) \<longleftrightarrow>
      set (map fst V) \<subseteq> set (df_index Y) \<and> set (map fst V) \<subseteq> set (df_columns Y)
      \<and> map fst theta = map fst V)
   \<and> (set (map fst V) \<subseteq> set (df_index Y) \<and> set (map fst V) \<subseteq> set (df_columns Y)
        \<and> map fst theta \<noteq> map fst V
      \<longrightarrow> calc_injected_power Y V theta = Inl (AssertionError ''theta''))
   \<and> (\<not> (set (map fst V) \<subseteq> set (df_index Y) \<and> set (map fst V) \<subseteq> set (df_columns Y))
      \<longrightarrow> (\<exists>k \<in> set (map fst V). calc_injected_power Y V theta = Inl (KeyError k)))
   \<and> (\<forall>P Q. calc_injected_power Y V theta = Inr (P, Q)
      \<longrightarrow> map fst P = map fst V \<and> map fst Q = map fst V)"
proof (cases "set (map fst V) \<subseteq> set (df_index Y) \<and> set (map fst V) \<subseteq> set (df_columns Y)")
  case True
  then have rows: "set (map fst V) \<subseteq> set (df_index Y)" and cols: "set (map fst V) \<subseteq> set (df_columns Y)"
    by simp_all
  show ?thesis
  proof (cases "map fst theta = map fst V")
    case th: True
    have rep: "\<forall>k \<in> set (map fst V). map_of V k = Some (the (map_of V k))
        \<and> map_of theta k = Some (the (map_of theta k))"
      using map_of_the [of _ V] map_of_the [of _ theta] th by simp
    show ?thesis
      using True th calc_injected_power_by_name [OF rows cols th rep]
      by (simp add: comp_def)
  next
    case False
    let ?o = "map fst V"
    obtain G where G: "df_reindex (df_map Re Y) ?o = Inr G" and Gi: "df_index G = ?o"
      using rows cols df_reindex_Inr [of "df_map Re Y" ?o] by (simp add: df_map_def)
    obtain B where B: "df_reindex (df_map Im Y) ?o = Inr B" and Bi: "df_index B = ?o"
      using rows cols df_reindex_Inr [of "df_map Im Y" ?o] by (simp add: df_map_def)
    have "calc_injected_power Y V theta = Inl (AssertionError ''theta'')"
      unfolding calc_injected_power_def Let_def G B using False Gi Bi
      by (simp add: then_do_def)
    then show ?thesis using True False by simp
  qed
next
  case False
  then have "\<not> (set (map fst V) \<subseteq> set (df_index (df_map Re Y))
      \<and> set (map fst V) \<subseteq> set (df_columns (df_map Re Y)))"
    by (simp add: df_map_def)
  then obtain e where e: "df_reindex (df_map Re Y) (map fst V) = Inl e"
    using df_reindex_Inr [of "df_map Re Y" "map fst V"]
    by (cases "df_reindex (df_map Re Y) (map fst V)") auto
  from df_reindex_Inl [OF e] obtain k where k: "k \<in> set (map fst V)" "e = KeyError k"
    by blast
  have "calc_injected_power Y V theta = Inl (KeyError k)"
    unfolding calc_injected_power_def Let_def e k(2) by (simp add: then_do_def)
  then show ?thesis using False k(1) by auto
qed

text \<open>
  C8, amended. The computation returns exactly when every label of V is a row label and a
  column label of the admittance matrix and theta has the labels of V in the same order.
  A missing label raises KeyError, a different label list of theta fails the assertion;
  the order of the matrix labels plays no part. What is returned is labelled like V, and
  its values are the sums of section 4.2 with every term read by name: P[k] and Q[k] add,
  over the buses m in the order of V, the terms built from V[k], V[m], theta[k], theta[m]
  and the cell of the matrix at the labels k, m, wherever that cell stands in the matrix
  (a frame with one cell per pair of labels; the labels of V distinct).
\<close>

theorem calc_injected_power_aborts:
  "((\<exists>P Q. calc_injected_power Y V theta = Inr (P, Q)) \<longleftrightarrow>
      set (map fst V) \<subseteq> set (df_index Y) \<and> set (map fst V) \<subseteq> set (df_columns Y)
      \<and> map fst theta = map fst V)
   \<and> (set (map fst V) \<subseteq> set (df_index Y) \<and> set (map fst V) \<subseteq> set (df_columns Y)
        \<and> map fst theta \<noteq> map fst V
      \<longrightarrow> calc_injected_power Y V theta = Inl (AssertionError ''theta''))
   \<and> (\<not> (set (map fst V) \<subseteq> set (df_index Y) \<and> set (map fst V) \<subseteq> set (df_columns Y))
      \<longrightarrow> (\<exists>k \<in> set (map fst V). calc_injected_power Y V theta = Inl (KeyError k)))
   \<and> (\<forall>P Q. calc_injected_power Y V theta = Inr (P, Q)
      \<longrightarrow> map fst P = map fst V \<and> map fst Q = map fst V)
   \<and> (df_wf Y \<and> set (map fst V) \<subseteq> set (df_index Y) \<and> set (map fst V) \<subseteq> set (df_columns Y)
        \<and> map fst theta = map fst V
      \<longrightarrow> calc_injected_power Y V theta =
            Inr (map (\<lambda>k. (k, P_inj (\<lambda>k. the (map_of V k)) (\<lambda>k. the (map_of theta k))
                                (\<lambda>k m. Re (cell Y k m)) (\<lambda>k m. Im (cell Y k m)) (map fst V) k))
                   (map fst V),
                 map (\<lambda>k. (k, Q_inj (\<lambda>k. the (map_of V k)) (\<lambda>k. the (map_of theta k))
                                (\<lambda>k m. Re (cell Y k m)) (\<lambda>k m. Im (cell Y k m)) (map fst V) k))
                   (map fst V)))"
proof -
  have vals: "df_wf Y \<and> set (map fst V) \<subseteq> set (df_index Y) \<and> set (map fst V) \<subseteq> set (df_columns Y)
        \<and> map fst theta = map fst V
      \<longrightarrow> calc_injected_power Y V theta =
            Inr (map (\<lambda>k. (k, P_inj (\<lambda>k. the (map_of V k)) (\<lambda>k. the (map_of theta k))
                                (\<lambda>k m. Re (cell Y k m)) (\<lambda>k m. Im (cell Y k m)) (map fst V) k))
                   (map fst V),
                 map (\<lambda>k. (k, Q_inj (\<lambda>k. the (map_of V k)) (\<lambda>k. the (map_of theta k))
                                (\<lambda>k m. Re (cell Y k m)) (\<lambda>k m. Im (cell Y k m)) (map fst V) k))
                   (map fst V))"
  proof (intro impI, elim conjE)
    assume wf: "df_wf Y"
      and rows: "set (map fst V) \<subseteq> set (df_index Y)" and cols: "set (map fst V) \<subseteq> set (df_columns Y)"
      and th: "map fst theta = map fst V"
    have rep: "\<forall>k \<in> set (map fst V). map_of V k = Some (the (map_of V k))
        \<and> map_of theta k = Some (the (map_of theta k))"
      using map_of_the [of _ V] map_of_the [of _ theta] th by simp
    show "calc_injected_power Y V theta =
            Inr (map (\<lambda>k. (k, P_inj (\<lambda>k. the (map_of V k)) (\<lambda>k. the (map_of theta k))
                                (\<lambda>k m. Re (cell Y k m)) (\<lambda>k m. Im (cell Y k m)) (map fst V) k))
                   (map fst V),
                 map (\<lambda>k. (k, Q_inj (\<lambda>k. the (map_of V k)) (\<lambda>k. the (map_of theta k))
                                (\<lambda>k m. Re (cell Y k m)) (\<lambda>k m. Im (cell Y k m)) (map fst V) k))
                   (map fst V))"
      by (rule calc_injected_power_values [OF wf rows cols th rep])
  qed
  show ?thesis
    using calc_injected_power_outcomes [of Y V theta] vals by blast
qed

lemma Y_AB_wf: "df_wf Y_AB"
  by (simp add: df_wf_def Y_AB_def)

lemma cell_Y_AB:
  "cell Y_AB ''A'' ''A'' = Complex 0 (- 1)" "cell Y_AB ''A'' ''B'' = Complex 0 1"
  "cell Y_AB ''B'' ''A'' = Complex 0 1" "cell Y_AB ''B'' ''B'' = Complex 0 (- 1)"
  by (simp_all add: cell_def Y_AB_def)

lemma Y_assimetrica_wf: "df_wf Y_assimetrica"
  by (simp add: df_wf_def Y_assimetrica_def)

lemma cell_Y_assimetrica:
  "cell Y_assimetrica ''A'' ''A'' = Complex 1 (- 5)" "cell Y_assimetrica ''A'' ''B'' = Complex 2 (- 6)"
  "cell Y_assimetrica ''B'' ''A'' = Complex 3 (- 7)" "cell Y_assimetrica ''B'' ''B'' = Complex 4 (- 8)"
  by (simp_all add: cell_def Y_assimetrica_def)

text \<open>
  C8 as stated fails: the matrix is labelled A, B and the vectors B, A, and the
  computation returns P and Q, after realigning G and B to the order of V by name. The
  matrix is not symmetric and the magnitudes differ, so that the values tell the
  alignment: P[B] = 2 * 2 * 4 + 2 * 1 * 3 = 22 reads the cells (B, B) and (B, A), where the
  cells of the first row of the matrix would give 2 * 2 * 1 + 2 * 1 * 2 = 8.
\<close>

theorem calc_injected_power_realigns:
  "map fst [(''B'', 2 :: real), (''A'', 1)] \<noteq> df_index Y_assimetrica
   \<and> map fst [(''B'', 2 :: real), (''A'', 1)] \<noteq> df_columns Y_assimetrica
   \<and> calc_injected_power Y_assimetrica [(''B'', 2), (''A'', 1)] [(''B'', 0), (''A'', 0)]
       = Inr ([(''B'', 22), (''A'', 5)], [(''B'', 46), (''A'', 17)])"
proof -
  let ?V = "[(''B'', 2), (''A'', 1)] :: Series"
  let ?th = "[(''B'', 0), (''A'', 0)] :: Series"
  let ?v = "\<lambda>k. if k = ''B'' then 2 else (1 :: real)"
  have rep: "\<forall>k \<in> set (map fst ?V). map_of ?V k = Some (?v k) \<and> map_of ?th k = Some ((\<lambda>k. 0) k)"
    by simp
  have rows: "set (map fst ?V) \<subseteq> set (df_index Y_assimetrica)"
    and cols: "set (map fst ?V) \<subseteq> set (df_columns Y_assimetrica)"
    by (simp_all add: Y_assimetrica_def)
  have "calc_injected_power Y_assimetrica ?V ?th
      = Inr ([(''B'', 22), (''A'', 5)], [(''B'', 46), (''A'', 17)])"
    unfolding calc_injected_power_values [OF Y_assimetrica_wf rows cols _ rep, simplified]
    by (simp add: P_inj_def Q_inj_def cell_Y_assimetrica)
  then show ?thesis
    by (simp add: Y_assimetrica_def)
qed

text \<open>
  The theorem of C8 on the asymmetric two-bus matrix: each of the three outcomes, and the
  values returned for vectors in the order B, A.
\<close>

theorem calc_injected_power_aborts_witness:
  "calc_injected_power Y_assimetrica [(''A'', 1), (''B'', 2)] [(''B'', 0), (''A'', 0)]
     = Inl (AssertionError ''theta'')
   \<and> calc_injected_power Y_assimetrica [(''B'', 2), (''A'', 1)] [(''B'', 0), (''A'', 0)]
     = Inr ([(''B'', 22), (''A'', 5)], [(''B'', 46), (''A'', 17)])
   \<and> (\<exists>k \<in> set [''A'', ''C''].
         calc_injected_power Y_assimetrica [(''A'', 1), (''C'', 1)] [(''A'', 0), (''C'', 0)]
           = Inl (KeyError k))"
proof -
  have 1: "calc_injected_power Y_assimetrica [(''A'', 1), (''B'', 2)] [(''B'', 0), (''A'', 0)]
     = Inl (AssertionError ''theta'')"
    using calc_injected_power_aborts [of Y_assimetrica "[(''A'', 1), (''B'', 2)]" "[(''B'', 0), (''A'', 0)]"]
    by (simp add: Y_assimetrica_def)
  have 2: "calc_injected_power Y_assimetrica [(''B'', 2), (''A'', 1)] [(''B'', 0), (''A'', 0)]
     = Inr ([(''B'', 22), (''A'', 5)], [(''B'', 46), (''A'', 17)])"
    using calc_injected_power_aborts [of Y_assimetrica "[(''B'', 2), (''A'', 1)]" "[(''B'', 0), (''A'', 0)]"]
      Y_assimetrica_wf
    by (simp add: P_inj_def Q_inj_def cell_Y_assimetrica) (simp add: Y_assimetrica_def)
  have 3: "\<exists>k \<in> set [''A'', ''C''].
         calc_injected_power Y_assimetrica [(''A'', 1), (''C'', 1)] [(''A'', 0), (''C'', 0)]
           = Inl (KeyError k)"
    using calc_injected_power_aborts [of Y_assimetrica "[(''A'', 1), (''C'', 1)]" "[(''A'', 0), (''C'', 0)]"]
    by (simp add: Y_assimetrica_def)
  show ?thesis
    using 1 2 3 by simp
qed

section \<open>The Jacobian\<close>

lemma monta_linha_ok:
  "\<forall>m \<in> set ms. f m = Inr (h m) \<Longrightarrow> monta_linha f ms = Inr (map h ms)"
  by (induction ms) (simp_all add: then_do_def)

lemma monta_bloco_ok:
  "\<forall>k \<in> set ks. \<forall>m \<in> set colunas. f k m = Inr (h k m) \<Longrightarrow>
   monta_bloco f ks colunas = Inr (map (\<lambda>k. map (h k) colunas) ks)"
proof (induction ks)
  case Nil
  then show ?case by simp
next
  case (Cons k ks)
  have "monta_linha (f k) colunas = Inr (map (h k) colunas)"
    by (rule monta_linha_ok) (use Cons.prems in simp)
  then show ?case
    using Cons by (simp add: then_do_def)
qed

lemma hstack_map:
  "hstack (map f ks) (map h ks) = map (\<lambda>k. f k @ h k) ks"
  by (induction ks) (simp_all add: hstack_def)

lemma entries_ref:
  assumes k: "map_of V k = Some (v k)" "map_of theta k = Some (t k)"
      "map_of P k = Some (p k)" "map_of Q k = Some (q k)"
    and m: "map_of V m = Some (v m)" "map_of theta m = Some (t m)"
    and gb: "df_loc G k m = Inr (g k m)" "df_loc B k m = Inr (b k m)"
  shows "H_entry V theta G B P Q swing k m = Inr (H_ref v t g b p q swing k m)"
    and "N_entry V theta G B P Q swing k m = Inr (N_ref v t g b p q swing k m)"
    and "M_entry V theta G B P Q swing k m = Inr (M_ref v t g b p q swing k m)"
    and "L_entry V theta G B P Q swing k m = Inr (L_ref v t g b p q swing k m)"
  using assms
  by (auto simp: H_entry_def N_entry_def M_entry_def L_entry_def
      H_ref_def N_ref_def M_ref_def L_ref_def series_loc_def then_do_def)


lemma Jacobian_build_eq:
  assumes rep: "\<forall>k \<in> set index \<union> set swing \<union> set pq.
        map_of V k = Some (v k) \<and> map_of theta k = Some (t k)
        \<and> map_of P k = Some (p k) \<and> map_of Q k = Some (q k)"
    and gb: "\<forall>k \<in> set index \<union> set swing \<union> set pq. \<forall>m \<in> set index \<union> set swing \<union> set pq.
        df_loc G k m = Inr (g k m) \<and> df_loc B k m = Inr (b k m)"
  shows "Jacobian_build V theta G B P Q pq pv swing index
           = Inr (J_ref v t g b p q index swing pq)"
proof -
  let ?S = "set index \<union> set swing \<union> set pq"
  have e: "\<And>k m. k \<in> ?S \<Longrightarrow> m \<in> ?S \<Longrightarrow>
      H_entry V theta G B P Q swing k m = Inr (H_ref v t g b p q swing k m)
    \<and> N_entry V theta G B P Q swing k m = Inr (N_ref v t g b p q swing k m)
    \<and> M_entry V theta G B P Q swing k m = Inr (M_ref v t g b p q swing k m)
    \<and> L_entry V theta G B P Q swing k m = Inr (L_ref v t g b p q swing k m)"
  proof -
    fix k m assume k: "k \<in> ?S" and m: "m \<in> ?S"
    have rk: "map_of V k = Some (v k)" "map_of theta k = Some (t k)"
      "map_of P k = Some (p k)" "map_of Q k = Some (q k)"
      using rep k by blast+
    have rm: "map_of V m = Some (v m)" "map_of theta m = Some (t m)"
      using rep m by blast+
    have c: "df_loc G k m = Inr (g k m)" "df_loc B k m = Inr (b k m)"
      using gb k m by blast+
    show "H_entry V theta G B P Q swing k m = Inr (H_ref v t g b p q swing k m)
    \<and> N_entry V theta G B P Q swing k m = Inr (N_ref v t g b p q swing k m)
    \<and> M_entry V theta G B P Q swing k m = Inr (M_ref v t g b p q swing k m)
    \<and> L_entry V theta G B P Q swing k m = Inr (L_ref v t g b p q swing k m)"
      using entries_ref [where v = v and t = t and p = p and q = q and g = g and b = b, OF rk rm c]
      by blast
  qed
  have S: "set index \<subseteq> ?S" "set (swing @ pq) \<subseteq> ?S"
    by auto
  have H: "monta_bloco (H_entry V theta G B P Q swing) index index
      = Inr (map (\<lambda>k. map (H_ref v t g b p q swing k) index) index)"
    by (rule monta_bloco_ok) (use e S in blast)
  have N: "monta_bloco (N_entry V theta G B P Q swing) index (swing @ pq)
      = Inr (map (\<lambda>k. map (N_ref v t g b p q swing k) (swing @ pq)) index)"
    by (rule monta_bloco_ok) (use e S in blast)
  have M: "monta_bloco (M_entry V theta G B P Q swing) (swing @ pq) index
      = Inr (map (\<lambda>k. map (M_ref v t g b p q swing k) index) (swing @ pq))"
    by (rule monta_bloco_ok) (use e S in blast)
  have L: "monta_bloco (L_entry V theta G B P Q swing) (swing @ pq) (swing @ pq)
      = Inr (map (\<lambda>k. map (L_ref v t g b p q swing k) (swing @ pq)) (swing @ pq))"
    by (rule monta_bloco_ok) (use e S in blast)
  show ?thesis
    unfolding Jacobian_build_def H N M L
    by (simp only: then_do_def sum.case vstack_def hstack_map J_ref_def)
qed

text \<open>
  C5. When the vectors and the matrices hold the buses of the partition, the builder
  returns the block matrix of the reference definition: H of size |index| x |index|, N of
  size |index| x |swing + pq|, M of size |swing + pq| x |index| and L of size
  |swing + pq| x |swing + pq|, each entry the reference formula at the bus names of its
  row and column. The file text before \<open>H_entry\<close> says what the quotient by a zero
  magnitude is on both sides.
\<close>

theorem Jacobian_build_is_J_ref:
  assumes rep: "\<forall>k \<in> set index \<union> set swing \<union> set pq.
        map_of V k = Some (v k) \<and> map_of theta k = Some (t k)
        \<and> map_of P k = Some (p k) \<and> map_of Q k = Some (q k)"
    and gb: "\<forall>k \<in> set index \<union> set swing \<union> set pq. \<forall>m \<in> set index \<union> set swing \<union> set pq.
        df_loc G k m = Inr (g k m) \<and> df_loc B k m = Inr (b k m)"
  shows "Jacobian_build V theta G B P Q pq pv swing index
           = Inr (J_ref v t g b p q index swing pq)
       \<and> length (J_ref v t g b p q index swing pq) = length index + length (swing @ pq)
       \<and> (\<forall>row \<in> set (J_ref v t g b p q index swing pq).
             length row = length index + length (swing @ pq))
       \<and> (\<forall>i < length index. \<forall>j < length index.
             J_ref v t g b p q index swing pq ! i ! j
               = H_ref v t g b p q swing (index ! i) (index ! j))
       \<and> (\<forall>i < length index. \<forall>j < length (swing @ pq).
             J_ref v t g b p q index swing pq ! i ! (length index + j)
               = N_ref v t g b p q swing (index ! i) ((swing @ pq) ! j))
       \<and> (\<forall>i < length (swing @ pq). \<forall>j < length index.
             J_ref v t g b p q index swing pq ! (length index + i) ! j
               = M_ref v t g b p q swing ((swing @ pq) ! i) (index ! j))
       \<and> (\<forall>i < length (swing @ pq). \<forall>j < length (swing @ pq).
             J_ref v t g b p q index swing pq ! (length index + i) ! (length index + j)
               = L_ref v t g b p q swing ((swing @ pq) ! i) ((swing @ pq) ! j))"
proof -
  have build: "Jacobian_build V theta G B P Q pq pv swing index
           = Inr (J_ref v t g b p q index swing pq)"
    by (rule Jacobian_build_eq [OF rep gb])
  have len: "length (J_ref v t g b p q index swing pq) = length index + length (swing @ pq)"
    by (simp add: J_ref_def)
  have rows: "\<forall>row \<in> set (J_ref v t g b p q index swing pq).
             length row = length index + length (swing @ pq)"
    by (auto simp: J_ref_def)
  have top: "\<And>i. i < length index \<Longrightarrow> J_ref v t g b p q index swing pq ! i
      = map (H_ref v t g b p q swing (index ! i)) index
        @ map (N_ref v t g b p q swing (index ! i)) (swing @ pq)"
    by (simp add: J_ref_def nth_append)
  have bot: "\<And>i. i < length (swing @ pq) \<Longrightarrow> J_ref v t g b p q index swing pq ! (length index + i)
      = map (M_ref v t g b p q swing ((swing @ pq) ! i)) index
        @ map (L_ref v t g b p q swing ((swing @ pq) ! i)) (swing @ pq)"
    by (simp add: J_ref_def nth_append)
  have h: "\<forall>i < length index. \<forall>j < length index.
             J_ref v t g b p q index swing pq ! i ! j
               = H_ref v t g b p q swing (index ! i) (index ! j)"
    by (simp add: top nth_append)
  have n: "\<forall>i < length index. \<forall>j < length (swing @ pq).
             J_ref v t g b p q index swing pq ! i ! (length index + j)
               = N_ref v t g b p q swing (index ! i) ((swing @ pq) ! j)"
    by (simp add: top nth_append del: append_assoc)
  have m: "\<forall>i < length (swing @ pq). \<forall>j < length index.
             J_ref v t g b p q index swing pq ! (length index + i) ! j
               = M_ref v t g b p q swing ((swing @ pq) ! i) (index ! j)"
    using bot by (simp add: nth_append)
  have l: "\<forall>i < length (swing @ pq). \<forall>j < length (swing @ pq).
             J_ref v t g b p q index swing pq ! (length index + i) ! (length index + j)
               = L_ref v t g b p q swing ((swing @ pq) ! i) ((swing @ pq) ! j)"
    using bot by (simp add: nth_append)
  show ?thesis
    using build len rows h n m l by blast
qed


lemma df_loc_Y_AB:
  "k \<in> {''A'', ''B''} \<Longrightarrow> m \<in> {''A'', ''B''} \<Longrightarrow>
   df_loc (df_map f Y_AB) k m = Inr (f (cell Y_AB k m))"
  by (auto simp: df_loc_def df_map_def cell_def Y_AB_def)

text \<open>The theorem of C5 at the flat start of the two-bus system: the identity matrix.\<close>

theorem Jacobian_build_is_J_ref_witness:
  "Jacobian_build [(''A'', 1), (''B'', 1)] [(''A'', 0), (''B'', 0)]
       (df_map Re Y_AB) (df_map Im Y_AB) [(''A'', 0), (''B'', 0)] [(''A'', 0), (''B'', 0)]
       [''B''] [] [''A''] [''A'', ''B'']
     = Inr [[1, 0, 0, 0], [0, 1, 0, 0], [0, 0, 1, 0], [0, 0, 0, 1]]"
proof -
  let ?V = "[(''A'', 1), (''B'', 1)] :: Series"
  let ?Z = "[(''A'', 0), (''B'', 0)] :: Series"
  let ?g = "\<lambda>k m. Re (cell Y_AB k m)"
  let ?b = "\<lambda>k m. Im (cell Y_AB k m)"
  have rep: "\<forall>k \<in> set [''A'', ''B''] \<union> set [''A''] \<union> set [''B''].
        map_of ?V k = Some ((\<lambda>k. 1) k) \<and> map_of ?Z k = Some ((\<lambda>k. 0) k)
        \<and> map_of ?Z k = Some ((\<lambda>k. 0) k) \<and> map_of ?Z k = Some ((\<lambda>k. 0) k)"
    by simp
  have gb: "\<forall>k \<in> set [''A'', ''B''] \<union> set [''A''] \<union> set [''B''].
      \<forall>m \<in> set [''A'', ''B''] \<union> set [''A''] \<union> set [''B''].
        df_loc (df_map Re Y_AB) k m = Inr (?g k m) \<and> df_loc (df_map Im Y_AB) k m = Inr (?b k m)"
    by (simp add: df_loc_Y_AB)
  have "J_ref (\<lambda>k. 1) (\<lambda>k. 0) ?g ?b (\<lambda>k. 0) (\<lambda>k. 0) [''A'', ''B''] [''A''] [''B'']
      = [[1, 0, 0, 0], [0, 1, 0, 0], [0, 0, 1, 0], [0, 0, 0, 1]]"
    by (simp add: J_ref_def H_ref_def N_ref_def M_ref_def L_ref_def BIG_NUMBER_def cell_Y_AB)
  then show ?thesis
    using Jacobian_build_is_J_ref [OF rep gb, of "[]"] by simp
qed

section \<open>The solver loop\<close>

lemma estado_frame:
  "nr_max_iter (estado lsolve s i) = nr_max_iter s"
proof (induction i arbitrary: s)
  case 0
  then show ?case by simp
next
  case (Suc i)
  then show ?case
    by (simp split: sum.splits passo.splits)
qed

lemma solve_loop_exhaust:
  "\<forall>i < n. \<exists>th v. iteracao lsolve (estado lsolve s i) = Inr (Corrigido th v) \<Longrightarrow>
   solve_loop lsolve s iteration n
     = Inr (nr_V (estado lsolve s n), nr_theta (estado lsolve s n), False, nr_max_iter s)"
proof (induction n arbitrary: s iteration)
  case 0
  then show ?case by simp
next
  case (Suc n)
  from Suc.prems have "\<exists>th v. iteracao lsolve (estado lsolve s 0) = Inr (Corrigido th v)"
    by blast
  then obtain th v where step: "iteracao lsolve s = Inr (Corrigido th v)"
    by auto
  let ?s' = "s\<lparr>nr_theta := th, nr_V := v\<rparr>"
  have "\<forall>i < n. \<exists>th v. iteracao lsolve (estado lsolve ?s' i) = Inr (Corrigido th v)"
  proof (intro allI impI)
    fix i assume "i < n"
    then have "\<exists>th v. iteracao lsolve (estado lsolve s (Suc i)) = Inr (Corrigido th v)"
      using Suc.prems by auto
    then show "\<exists>th v. iteracao lsolve (estado lsolve ?s' i) = Inr (Corrigido th v)"
      using step by simp
  qed
  from Suc.IH [OF this] show ?case
    using step by simp
qed

lemma solve_loop_result:
  "solve_loop lsolve s iteration n = Inr (V', th', c, k) \<Longrightarrow>
   (c \<longrightarrow> int iteration + 1 \<le> k \<and> k \<le> int iteration + int n
        \<and> iteracao lsolve (estado lsolve s (nat (k - 1) - iteration)) = Inr Convergiu)
   \<and> (\<not> c \<longrightarrow> k = nr_max_iter s)"
proof (induction n arbitrary: s iteration)
  case 0
  then show ?case by simp
next
  case (Suc n)
  show ?case
  proof (cases "iteracao lsolve s")
    case (Inl e)
    then show ?thesis using Suc.prems by simp
  next
    case (Inr p)
    show ?thesis
    proof (cases p)
      case Convergiu
      then show ?thesis using Suc.prems Inr by auto
    next
      case (Corrigido th v)
      let ?s' = "s\<lparr>nr_theta := th, nr_V := v\<rparr>"
      have run: "solve_loop lsolve ?s' (Suc iteration) n = Inr (V', th', c, k)"
        using Suc.prems Inr Corrigido by simp
      note ih = Suc.IH [OF run]
      have e: "\<And>i. estado lsolve s (Suc i) = estado lsolve ?s' i"
        using Inr Corrigido by simp
      show ?thesis
      proof (intro conjI impI)
        assume c
        with ih have k: "int (Suc iteration) + 1 \<le> k" "k \<le> int (Suc iteration) + int n"
          and cv: "iteracao lsolve (estado lsolve ?s' (nat (k - 1) - Suc iteration)) = Inr Convergiu"
          by simp_all
        show "int iteration + 1 \<le> k" using k by simp
        show "k \<le> int iteration + int (Suc n)" using k by simp
        have "nat (k - 1) - iteration = Suc (nat (k - 1) - Suc iteration)"
          using k by linarith
        then show "iteracao lsolve (estado lsolve s (nat (k - 1) - iteration)) = Inr Convergiu"
          using cv e by simp
      next
        assume "\<not> c"
        with ih show "k = nr_max_iter s" by simp
      qed
    qed
  qed
qed

text \<open>
  C9. If each of the max_iter passes corrects the state (none converges, none raises),
  solve returns the state after max_iter passes with converged = False and the count
  max_iter. Whatever the run, a result with converged = True is returned by a pass that
  met the tolerance, with a count between 1 and max_iter, and a result with
  converged = False carries the count max_iter. (A negative max_iter runs no pass.)
\<close>

theorem solve_exhaustion:
  "((\<forall>i < nat (nr_max_iter s). \<exists>th v. iteracao lsolve (estado lsolve s i) = Inr (Corrigido th v))
      \<longrightarrow> solve lsolve s
            = Inr (nr_V (estado lsolve s (nat (nr_max_iter s))),
                   nr_theta (estado lsolve s (nat (nr_max_iter s))), False, nr_max_iter s))
   \<and> (\<forall>V' th' c k. solve lsolve s = Inr (V', th', c, k) \<longrightarrow>
        (c \<longrightarrow> 1 \<le> k \<and> k \<le> nr_max_iter s
             \<and> iteracao lsolve (estado lsolve s (nat (k - 1))) = Inr Convergiu)
        \<and> (\<not> c \<longrightarrow> k = nr_max_iter s))"
proof (intro conjI impI allI)
  assume "\<forall>i < nat (nr_max_iter s). \<exists>th v. iteracao lsolve (estado lsolve s i) = Inr (Corrigido th v)"
  then show "solve lsolve s
            = Inr (nr_V (estado lsolve s (nat (nr_max_iter s))),
                   nr_theta (estado lsolve s (nat (nr_max_iter s))), False, nr_max_iter s)"
    unfolding solve_def by (rule solve_loop_exhaust)
next
  fix V' th' c k
  assume r: "solve lsolve s = Inr (V', th', c, k)"
  then have l: "solve_loop lsolve s 0 (nat (nr_max_iter s)) = Inr (V', th', c, k)"
    by (simp add: solve_def)
  note res = solve_loop_result [OF l]
  {
    assume c
    with res show "1 \<le> k" by simp
    from \<open>c\<close> res show "k \<le> nr_max_iter s" by (simp split: if_splits)
    from \<open>c\<close> res show "iteracao lsolve (estado lsolve s (nat (k - 1))) = Inr Convergiu" by simp
  }
  {
    assume "\<not> c"
    with res show "k = nr_max_iter s" by simp
  }
qed

section \<open>The swing bus under the Big Number rows\<close>

lemma loop_delta_labels: "loop_delta esp calc ks = Inr d \<Longrightarrow> map fst d = ks"
proof (induction ks arbitrary: d)
  case Nil
  then show ?case by simp
next
  case (Cons k ks)
  then show ?case
    by (auto simp: then_do_Inr split: option.splits)
qed

lemma zera_swing_nth:
  assumes "map fst d = ks" and "i < length ks" and "ks ! i \<in> set swing"
  shows "snd (zera_swing d swing ! i) = 0"
proof -
  have l: "i < length d" using assms(1,2) by (metis length_map)
  have "fst (d ! i) = ks ! i" using assms(1) l by (metis nth_map)
  then show ?thesis
    using l assms(3) by (cases "d ! i") (simp add: zera_swing_eq)
qed

lemma length_zera_swing: "length (zera_swing d swing) = length d"
  by (simp add: zera_swing_eq)

lemma calc_delta_p_swing:
  assumes "calc_delta_p P pot_esp index swing = Inr dP"
  shows "length dP = length index"
    and "\<And>i. i < length index \<Longrightarrow> index ! i \<in> set swing \<Longrightarrow> snd (dP ! i) = 0"
proof -
  from assms obtain d
    where d: "loop_delta (\<lambda>k. map_option fst (map_of pot_esp k)) (map_of P) index = Inr d"
      and dP: "dP = zera_swing d swing"
    by (auto simp: calc_delta_p_def then_do_Inr)
  note lab = loop_delta_labels [OF d]
  show "length dP = length index"
    using lab dP by (metis length_map length_zera_swing)
  show "\<And>i. i < length index \<Longrightarrow> index ! i \<in> set swing \<Longrightarrow> snd (dP ! i) = 0"
    using zera_swing_nth [OF lab] dP by simp
qed

lemma calc_delta_q_swing:
  assumes "calc_delta_q Q pot_esp pq swing = Inr dQ"
  shows "length dQ = length (swing @ pq)"
    and "\<And>i. i < length (swing @ pq) \<Longrightarrow> (swing @ pq) ! i \<in> set swing \<Longrightarrow> snd (dQ ! i) = 0"
proof -
  from assms obtain d
    where d: "loop_delta (\<lambda>k. map_option snd (map_of pot_esp k)) (map_of Q) (swing @ pq) = Inr d"
      and dQ: "dQ = zera_swing d swing"
    by (auto simp: calc_delta_q_def then_do_Inr Let_def)
  note lab = loop_delta_labels [OF d]
  show "length dQ = length (swing @ pq)"
    using lab dQ by (metis length_map length_zera_swing)
  show "\<And>i. i < length (swing @ pq) \<Longrightarrow> (swing @ pq) ! i \<in> set swing \<Longrightarrow> snd (dQ ! i) = 0"
    using zera_swing_nth [OF lab] dQ by simp
qed

lemma monta_linha_nth:
  "monta_linha f ms = Inr r \<Longrightarrow>
   length r = length ms \<and> (\<forall>j < length ms. f (ms ! j) = Inr (r ! j))"
proof (induction ms arbitrary: r)
  case Nil
  then show ?case by simp
next
  case (Cons m ms)
  then obtain x xs where x: "f m = Inr x" and xs: "monta_linha f ms = Inr xs" and r: "r = x # xs"
    by (auto simp: then_do_Inr)
  from Cons.IH [OF xs] x r show ?case
    by (auto simp: nth_Cons split: nat.splits)
qed

lemma monta_bloco_nth:
  "monta_bloco f ks colunas = Inr R \<Longrightarrow>
   length R = length ks \<and> (\<forall>i < length ks. monta_linha (f (ks ! i)) colunas = Inr (R ! i))"
proof (induction ks arbitrary: R)
  case Nil
  then show ?case by simp
next
  case (Cons k ks)
  then obtain r rs where r: "monta_linha (f k) colunas = Inr r"
    and rs: "monta_bloco f ks colunas = Inr rs" and R: "R = r # rs"
    by (auto simp: then_do_Inr)
  from Cons.IH [OF rs] r R show ?case
    by (auto simp: nth_Cons split: nat.splits)
qed

lemma bloco_row:
  assumes "monta_bloco f ks colunas = Inr R" and "i < length ks"
    and "\<And>m. m \<in> set colunas \<Longrightarrow> f (ks ! i) m = Inr (h m)"
  shows "R ! i = map h colunas"
proof -
  from monta_bloco_nth [OF assms(1)] assms(2)
  have row: "monta_linha (f (ks ! i)) colunas = Inr (R ! i)" by blast
  from monta_linha_nth [OF row]
  have l: "length (R ! i) = length colunas"
    and e: "\<forall>j < length colunas. f (ks ! i) (colunas ! j) = Inr (R ! i ! j)" by blast+
  show ?thesis
  proof (rule nth_equalityI)
    show "length (R ! i) = length (map h colunas)" using l by simp
  next
    fix j assume "j < length (R ! i)"
    then have j: "j < length colunas" using l by simp
    then have "f (ks ! i) (colunas ! j) = Inr (h (colunas ! j))"
      using assms(3) by simp
    with e j show "R ! i ! j = map h colunas ! j" by simp
  qed
qed

lemma hstack_nth:
  "i < length A \<Longrightarrow> i < length C \<Longrightarrow> hstack A C ! i = A ! i @ C ! i"
  by (simp add: hstack_def)

lemma length_hstack: "length (hstack A C) = min (length A) (length C)"
  by (simp add: hstack_def)

lemma Jacobian_swing_rows:
  assumes J: "Jacobian_build V theta G B P Q pq pv swing index = Inr J"
  shows "length J = length index + length (swing @ pq)"
    and "\<And>i. i < length index \<Longrightarrow> index ! i \<in> set swing \<Longrightarrow>
          J ! i = map (\<lambda>m. if index ! i = m then BIG_NUMBER else 0) index
                  @ map (\<lambda>m. 0) (swing @ pq)"
    and "\<And>j. j < length (swing @ pq) \<Longrightarrow> (swing @ pq) ! j \<in> set swing \<Longrightarrow>
          J ! (length index + j) = map (\<lambda>m. 0) index
                  @ map (\<lambda>m. if (swing @ pq) ! j = m then BIG_NUMBER else 0) (swing @ pq)"
proof -
  let ?c = "swing @ pq"
  from J obtain H N M L where
    H: "monta_bloco (H_entry V theta G B P Q swing) index index = Inr H" and
    N: "monta_bloco (N_entry V theta G B P Q swing) index ?c = Inr N" and
    M: "monta_bloco (M_entry V theta G B P Q swing) ?c index = Inr M" and
    L: "monta_bloco (L_entry V theta G B P Q swing) ?c ?c = Inr L" and
    Jeq: "J = vstack (hstack H N) (hstack M L)"
    unfolding Jacobian_build_def then_do_Inr by blast
  have lH: "length H = length index" and lN: "length N = length index"
    and lM: "length M = length ?c" and lL: "length L = length ?c"
    using monta_bloco_nth [OF H] monta_bloco_nth [OF N] monta_bloco_nth [OF M]
      monta_bloco_nth [OF L] by blast+
  show "length J = length index + length ?c"
    using Jeq lH lN lM lL by (simp add: vstack_def length_hstack)
  {
    fix i assume i: "i < length index" and sw: "index ! i \<in> set swing"
    have h: "H ! i = map (\<lambda>m. if index ! i = m then BIG_NUMBER else 0) index"
      by (rule bloco_row [OF H i]) (use sw in \<open>simp add: H_entry_def\<close>)
    have n: "N ! i = map (\<lambda>m. 0) ?c"
      by (rule bloco_row [OF N i]) (use sw in \<open>simp add: N_entry_def\<close>)
    have "J ! i = H ! i @ N ! i"
      using Jeq i lH lN by (simp add: vstack_def nth_append length_hstack hstack_nth)
    then show "J ! i = map (\<lambda>m. if index ! i = m then BIG_NUMBER else 0) index
                  @ map (\<lambda>m. 0) ?c"
      using h n by simp
  }
  {
    fix j assume j: "j < length ?c" and sw: "?c ! j \<in> set swing"
    have m: "M ! j = map (\<lambda>m. 0) index"
      by (rule bloco_row [OF M j]) (use sw in \<open>simp add: M_entry_def\<close>)
    have l: "L ! j = map (\<lambda>m. if ?c ! j = m then BIG_NUMBER else 0) ?c"
      by (rule bloco_row [OF L j]) (use sw in \<open>simp add: L_entry_def\<close>)
    have "J ! (length index + j) = M ! j @ L ! j"
      using Jeq j lH lN lM lL by (simp add: vstack_def nth_append length_hstack hstack_nth)
    then show "J ! (length index + j) = map (\<lambda>m. 0) index
                  @ map (\<lambda>m. if ?c ! j = m then BIG_NUMBER else 0) ?c"
      using m l by simp
  }
qed

lemma dot_zero: "dot (map (\<lambda>m. 0) ks) xs = 0"
proof (induction ks arbitrary: xs)
  case Nil
  then show ?case by (simp add: dot_def)
next
  case (Cons k ks)
  then show ?case by (cases xs) (simp_all add: dot_def)
qed

lemma dot_absent:
  "k \<notin> set ks \<Longrightarrow> dot (map (\<lambda>m. if k = m then a else 0) ks) xs = 0"
proof (induction ks arbitrary: xs)
  case Nil
  then show ?case by (simp add: dot_def)
next
  case (Cons k' ks)
  then show ?case by (cases xs) (auto simp: dot_def)
qed

lemma dot_unit:
  "distinct ks \<Longrightarrow> i < length ks \<Longrightarrow> length xs = length ks \<Longrightarrow>
   dot (map (\<lambda>m. if ks ! i = m then a else 0) ks) xs = a * xs ! i"
proof (induction ks arbitrary: i xs)
  case Nil
  then show ?case by simp
next
  case (Cons k ks)
  then obtain x xs' where xs: "xs = x # xs'" by (cases xs) auto
  show ?case
  proof (cases i)
    case 0
    have "dot (map (\<lambda>m. if k = m then a else 0) ks) xs' = 0"
      using Cons.prems(1) by (simp add: dot_absent)
    then show ?thesis using 0 xs by (simp add: dot_def)
  next
    case (Suc i')
    then have i': "i' < length ks" using Cons.prems(2) by simp
    have ne: "ks ! i' \<noteq> k" using Cons.prems(1) i' by auto
    have "dot (map (\<lambda>m. if ks ! i' = m then a else 0) ks) xs' = a * xs' ! i'"
      using Cons.IH [of i' xs'] Cons.prems i' xs by simp
    then show ?thesis using Suc xs ne by (simp add: dot_def)
  qed
qed

lemma dot_append:
  "dot (r1 @ r2) xs = dot r1 (take (length r1) xs) + dot r2 (drop (length r1) xs)"
proof (induction r1 arbitrary: xs)
  case Nil
  then show ?case by (simp add: dot_def)
next
  case (Cons a r1)
  show ?case
  proof (cases xs)
    case Nil
    then show ?thesis by (simp add: dot_def)
  next
    case (Cons x xs')
    then show ?thesis using Cons.IH [of xs'] by (simp add: dot_def)
  qed
qed


lemma swing_row_solution:
  assumes ex: "exact_solver lsolve"
    and sol: "lsolve J rhs = Inr delta"
    and lJ: "length J = length ks + length cs" and lr: "length rhs = length ks + length cs"
  shows "\<And>i. distinct ks \<Longrightarrow> i < length ks \<Longrightarrow> rhs ! i = 0 \<Longrightarrow>
           J ! i = map (\<lambda>m. if ks ! i = m then BIG_NUMBER else 0) ks @ map (\<lambda>m. 0) cs \<Longrightarrow>
           take (length ks) delta ! i = 0"
    and "\<And>j. distinct cs \<Longrightarrow> j < length cs \<Longrightarrow> rhs ! (length ks + j) = 0 \<Longrightarrow>
           J ! (length ks + j)
             = map (\<lambda>m. 0) ks @ map (\<lambda>m. if cs ! j = m then BIG_NUMBER else 0) cs \<Longrightarrow>
           take (length cs) (drop (length ks) delta) ! j = 0"
proof -
  have ld: "length delta = length ks + length cs"
    and eq: "\<And>i. i < length J \<Longrightarrow> dot (J ! i) delta = rhs ! i"
    using ex sol lr unfolding exact_solver_def by (metis, metis)
  {
    fix i assume d: "distinct ks" and i: "i < length ks" and z: "rhs ! i = 0"
      and row: "J ! i = map (\<lambda>m. if ks ! i = m then BIG_NUMBER else 0) ks @ map (\<lambda>m. 0) cs"
    have "dot (J ! i) delta
        = dot (map (\<lambda>m. if ks ! i = m then BIG_NUMBER else 0) ks) (take (length ks) delta)
          + dot (map (\<lambda>m. 0) cs) (drop (length ks) delta)"
      unfolding row dot_append by simp
    also have "\<dots> = BIG_NUMBER * take (length ks) delta ! i"
      using dot_unit [OF d i, of "take (length ks) delta" BIG_NUMBER] ld
      by (simp add: dot_zero)
    finally have "BIG_NUMBER * take (length ks) delta ! i = 0"
      using eq [of i] i lJ z by simp
    then show "take (length ks) delta ! i = 0"
      by (simp add: BIG_NUMBER_def)
  }
  {
    fix j assume d: "distinct cs" and j: "j < length cs" and z: "rhs ! (length ks + j) = 0"
      and row: "J ! (length ks + j)
             = map (\<lambda>m. 0) ks @ map (\<lambda>m. if cs ! j = m then BIG_NUMBER else 0) cs"
    have "dot (J ! (length ks + j)) delta
        = dot (map (\<lambda>m. 0) ks) (take (length ks) delta)
          + dot (map (\<lambda>m. if cs ! j = m then BIG_NUMBER else 0) cs) (drop (length ks) delta)"
      unfolding row dot_append by simp
    also have "\<dots> = BIG_NUMBER * drop (length ks) delta ! j"
      using dot_unit [OF d j, of "drop (length ks) delta" BIG_NUMBER] ld
      by (simp add: dot_zero)
    finally have "BIG_NUMBER * drop (length ks) delta ! j = 0"
      using eq [of "length ks + j"] j lJ z by simp
    then show "take (length cs) (drop (length ks) delta) ! j = 0"
      using j by (simp add: BIG_NUMBER_def)
  }
qed

lemma iteracao_swing:
  assumes ex: "exact_solver lsolve"
    and di: "distinct (nr_index s)" and dc: "distinct (nr_swing s @ nr_pq s)"
    and sw: "sw \<in> set (nr_swing s)" and swi: "sw \<in> set (nr_index s)"
    and step: "iteracao lsolve s = Inr (Corrigido th v)"
  shows "map_of th sw = map_of (nr_theta s) sw \<and> map_of v sw = map_of (nr_V s) sw"
proof -
  let ?ks = "nr_index s" and ?cs = "nr_swing s @ nr_pq s"
  from step obtain PQ dP dQ cv where
    dP: "calc_delta_p (fst PQ) (nr_pot_esp s) (nr_index s) (nr_swing s) = Inr dP" and
    dQ: "calc_delta_q (snd PQ) (nr_pot_esp s) (nr_pq s) (nr_swing s) = Inr dQ" and
    rest: "(if cv then Inr Convergiu
        else
          then_do (Jacobian_build (nr_V s) (nr_theta s)
                     (df_map Re (nr_Ybus s)) (df_map Im (nr_Ybus s)) (fst PQ) (snd PQ)
                     (nr_pq s) (nr_pv s) (nr_swing s) (nr_index s)) (\<lambda>J.
          then_do (lsolve J (map uminus (map snd dP @ map snd dQ))) (\<lambda>delta.
          then_do (apply_delta (nr_theta s) (nr_V s) delta (nr_index s) (nr_swing s) (nr_pq s))
            (\<lambda>tv. Inr (Corrigido (fst tv) (snd tv))))))
       = Inr (Corrigido th v)"
    unfolding iteracao_def Let_def then_do_Inr by blast
  have "\<not> cv" using rest by (cases cv) simp_all
  with rest obtain J delta where
    J: "Jacobian_build (nr_V s) (nr_theta s) (df_map Re (nr_Ybus s)) (df_map Im (nr_Ybus s))
          (fst PQ) (snd PQ) (nr_pq s) (nr_pv s) (nr_swing s) (nr_index s) = Inr J" and
    sol: "lsolve J (map uminus (map snd dP @ map snd dQ)) = Inr delta" and
    ap: "apply_delta (nr_theta s) (nr_V s) delta (nr_index s) (nr_swing s) (nr_pq s) = Inr (th, v)"
    by (auto simp: then_do_Inr)
  let ?rhs = "map uminus (map snd dP @ map snd dQ)"
  note p = calc_delta_p_swing [OF dP] and q = calc_delta_q_swing [OF dQ]
  note jr = Jacobian_swing_rows [OF J]
  have lr: "length ?rhs = length ?ks + length ?cs"
    using p(1) q(1) by simp
  from ap have t: "loop_sub (nr_theta s) (take (length ?ks) delta) 0 ?ks = Inr th"
    and vv: "loop_sub (nr_V s) (take (length ?cs) (drop (length ?ks) delta)) 0 ?cs = Inr v"
    by (auto simp: apply_delta_def split_corrections_def then_do_Inr)
  from swi obtain i where i: "i < length ?ks" and ki: "?ks ! i = sw"
    by (auto simp: in_set_conv_nth)
  have "sw \<in> set ?cs" using sw by simp
  then obtain j where j: "j < length ?cs" and cj: "?cs ! j = sw"
    unfolding in_set_conv_nth by blast
  have ri: "?rhs ! i = 0"
    using p(2) [OF i] ki sw i p(1) by (simp add: nth_append)
  have rj: "?rhs ! (length ?ks + j) = 0"
    using q(2) [OF j] cj sw j p(1) q(1) by (simp add: nth_append)
  have zi: "take (length ?ks) delta ! i = 0"
    by (rule swing_row_solution(1) [OF ex sol jr(1) lr di i ri]) (use jr(2) [OF i] ki sw in simp)
  have zj: "take (length ?cs) (drop (length ?ks) delta) ! j = 0"
    by (rule swing_row_solution(2) [OF ex sol jr(1) lr dc j rj]) (use jr(3) [OF j] cj sw in simp)
  have "map_of th sw = map_option (\<lambda>x. x - 0) (map_of (nr_theta s) sw)"
    using loop_sub_nth [OF di t i] ki zi by simp
  moreover have "map_of v sw = map_option (\<lambda>x. x - 0) (map_of (nr_V s) sw)"
    using loop_sub_nth [OF dc vv j] cj zj by simp
  ultimately show ?thesis
    by (simp add: option.map_ident)
qed

section \<open>Swing invariance\<close>

lemma estado_fields:
  "nr_index (estado lsolve s i) = nr_index s \<and> nr_swing (estado lsolve s i) = nr_swing s
   \<and> nr_pq (estado lsolve s i) = nr_pq s"
proof (induction i arbitrary: s)
  case 0
  then show ?case by simp
next
  case (Suc i)
  then show ?case
    by (simp split: sum.splits passo.splits)
qed

lemma estado_swing:
  assumes ex: "exact_solver lsolve"
    and di: "distinct (nr_index s)" and dc: "distinct (nr_swing s @ nr_pq s)"
    and sw: "sw \<in> set (nr_swing s)" and swi: "sw \<in> set (nr_index s)"
  shows "map_of (nr_theta (estado lsolve s i)) sw = map_of (nr_theta s) sw
       \<and> map_of (nr_V (estado lsolve s i)) sw = map_of (nr_V s) sw"
  using di dc sw swi
proof (induction i arbitrary: s)
  case 0
  then show ?case by simp
next
  case (Suc i)
  show ?case
  proof (cases "iteracao lsolve s")
    case (Inl e)
    then show ?thesis by simp
  next
    case (Inr p)
    show ?thesis
    proof (cases p)
      case Convergiu
      then show ?thesis using Inr by simp
    next
      case (Corrigido th v)
      let ?s' = "s\<lparr>nr_theta := th, nr_V := v\<rparr>"
      have step: "iteracao lsolve s = Inr (Corrigido th v)"
        using Inr Corrigido by simp
      note one = iteracao_swing [OF ex Suc.prems step]
      have "map_of (nr_theta (estado lsolve ?s' i)) sw = map_of (nr_theta ?s') sw
          \<and> map_of (nr_V (estado lsolve ?s' i)) sw = map_of (nr_V ?s') sw"
        by (rule Suc.IH) (use Suc.prems in simp_all)
      then show ?thesis
        using one step by simp
    qed
  qed
qed

lemma solve_loop_swing:
  assumes ex: "exact_solver lsolve"
    and di: "distinct (nr_index s)" and dc: "distinct (nr_swing s @ nr_pq s)"
    and sw: "sw \<in> set (nr_swing s)" and swi: "sw \<in> set (nr_index s)"
    and run: "solve_loop lsolve s iteration n = Inr (V', th', c, k)"
  shows "map_of th' sw = map_of (nr_theta s) sw \<and> map_of V' sw = map_of (nr_V s) sw"
  using di dc sw swi run
proof (induction n arbitrary: s iteration)
  case 0
  then show ?case by auto
next
  case (Suc n)
  show ?case
  proof (cases "iteracao lsolve s")
    case (Inl e)
    then show ?thesis using Suc.prems(5) by simp
  next
    case (Inr p)
    show ?thesis
    proof (cases p)
      case Convergiu
      then show ?thesis using Inr Suc.prems(5) by auto
    next
      case (Corrigido th v)
      let ?s' = "s\<lparr>nr_theta := th, nr_V := v\<rparr>"
      have step: "iteracao lsolve s = Inr (Corrigido th v)"
        using Inr Corrigido by simp
      note one = iteracao_swing [OF ex Suc.prems(1-4) step]
      have r: "solve_loop lsolve ?s' (Suc iteration) n = Inr (V', th', c, k)"
        using Suc.prems(5) step by simp
      have "map_of th' sw = map_of (nr_theta ?s') sw \<and> map_of V' sw = map_of (nr_V ?s') sw"
        by (rule Suc.IH [OF _ _ _ _ r]) (use Suc.prems in simp_all)
      then show ?thesis
        using one by simp
    qed
  qed
qed

lemma init_distinct:
  assumes "distinct (map row_barra (sis_df_bus sistema))"
  shows "distinct (nr_index (NewtonRaphson_init sistema tol max_iter))"
    and "distinct (nr_swing (NewtonRaphson_init sistema tol max_iter)
                   @ nr_pq (NewtonRaphson_init sistema tol max_iter))"
proof -
  let ?d = "sis_df_bus sistema"
  show "distinct (nr_index (NewtonRaphson_init sistema tol max_iter))"
    using assms by (simp add: NewtonRaphson_init_def Let_def)
  have inj: "inj_on row_barra (set ?d)"
    using assms by (simp add: distinct_map)
  have a: "distinct (barras_tipo ?d ''SWING'')" and b: "distinct (barras_tipo ?d ''PQ'')"
    using assms by (simp_all add: barras_tipo_def distinct_map_filter)
  have "set (barras_tipo ?d ''SWING'') \<inter> set (barras_tipo ?d ''PQ'') = {}"
  proof (rule ccontr)
    assume "set (barras_tipo ?d ''SWING'') \<inter> set (barras_tipo ?d ''PQ'') \<noteq> {}"
    then obtain r1 r2 where r1: "r1 \<in> set ?d" "row_tipo r1 = ''SWING''"
      and r2: "r2 \<in> set ?d" "row_tipo r2 = ''PQ''" and e: "row_barra r1 = row_barra r2"
      by (auto simp: barras_tipo_def)
    then have "r1 = r2" using inj by (auto dest: inj_onD)
    then show False using r1 r2 by simp
  qed
  then show "distinct (nr_swing (NewtonRaphson_init sistema tol max_iter)
                   @ nr_pq (NewtonRaphson_init sistema tol max_iter))"
    using a b by (simp add: NewtonRaphson_init_def Let_def)
qed

lemma map_of_column:
  "distinct (map f xs) \<Longrightarrow> r \<in> set xs \<Longrightarrow> map_of (map (\<lambda>x. (f x, h x)) xs) (f r) = Some (h r)"
  by (induction xs) (auto simp: image_iff)

lemma init_lookup:
  assumes "distinct (map row_barra (sis_df_bus sistema))" and "r \<in> set (sis_df_bus sistema)"
  shows "map_of (nr_theta (NewtonRaphson_init sistema tol max_iter)) (row_barra r) = Some (row_Theta r)"
    and "map_of (nr_V (NewtonRaphson_init sistema tol max_iter)) (row_barra r) = Some (row_V r)"
  using assms by (simp_all add: NewtonRaphson_init_def Let_def map_of_column)

text \<open>
  C2. Swing invariance. For a solver built from a table of buses with distinct names, and
  a linear solver whose answers satisfy the equations they were asked, a bus of type
  SWING keeps the angle and the magnitude of its row of the table: in the state after
  any number of passes of the loop (power balance, mismatches, Jacobian, linear
  solve, apply_delta), and in whatever solve returns.
\<close>

theorem swing_invariance:
  assumes ex: "exact_solver lsolve"
    and d: "distinct (map row_barra (sis_df_bus sistema))"
    and r: "r \<in> set (sis_df_bus sistema)" and tipo: "row_tipo r = ''SWING''"
  shows "(\<forall>i. map_of (nr_theta (estado lsolve (NewtonRaphson_init sistema tol max_iter) i))
                (row_barra r) = Some (row_Theta r)
            \<and> map_of (nr_V (estado lsolve (NewtonRaphson_init sistema tol max_iter) i))
                (row_barra r) = Some (row_V r))
       \<and> (\<forall>V' theta' c k.
             solve lsolve (NewtonRaphson_init sistema tol max_iter) = Inr (V', theta', c, k)
             \<longrightarrow> map_of theta' (row_barra r) = Some (row_Theta r)
               \<and> map_of V' (row_barra r) = Some (row_V r))"
proof -
  let ?s = "NewtonRaphson_init sistema tol max_iter"
  note dd = init_distinct [OF d, of tol max_iter]
  note l = init_lookup [OF d r, of tol max_iter]
  have sw: "row_barra r \<in> set (nr_swing ?s)"
    using r tipo by (auto simp: NewtonRaphson_init_def Let_def barras_tipo_def)
  have swi: "row_barra r \<in> set (nr_index ?s)"
    using r by (simp add: NewtonRaphson_init_def Let_def)
  have a: "\<forall>i. map_of (nr_theta (estado lsolve ?s i)) (row_barra r) = Some (row_Theta r)
            \<and> map_of (nr_V (estado lsolve ?s i)) (row_barra r) = Some (row_V r)"
    using estado_swing [OF ex dd sw swi] l by simp
  have b: "\<forall>V' theta' c k. solve lsolve ?s = Inr (V', theta', c, k)
             \<longrightarrow> map_of theta' (row_barra r) = Some (row_Theta r)
               \<and> map_of V' (row_barra r) = Some (row_V r)"
    unfolding solve_def using solve_loop_swing [OF ex dd sw swi] l by metis
  show ?thesis using a b by blast
qed

section \<open>A run of the solver on the two-bus system\<close>

lemma exact_solver_identidade4: "exact_solver solve_identidade4"
  unfolding exact_solver_def solve_identidade4_def
proof (intro allI impI)
  fix J :: "real list list" and rhs sol :: "real list"
  assume a: "(if J = [[1, 0, 0, 0], [0, 1, 0, 0], [0, 0, 1, 0], [0, 0, 0, 1]] \<and> length rhs = 4
      then Inr rhs else Inl LinAlgError) = Inr sol"
  then have J: "J = [[1, 0, 0, 0], [0, 1, 0, 0], [0, 0, 1, 0], [0, 0, 0, 1]]"
    and l: "length rhs = 4" and s: "sol = rhs"
    by (simp_all split: if_splits)
  obtain a b c d where r: "rhs = [a, b, c, d]"
    using l by (auto simp: length_Suc_conv numeral_eq_Suc)
  have "\<forall>i < length J. dot (J ! i) sol = rhs ! i"
    unfolding J s r by (simp add: dot_def less_Suc_eq numeral_eq_Suc all_conj_distrib)
  then show "length sol = length rhs \<and> (\<forall>i < length J. dot (J ! i) sol = rhs ! i)"
    using s by simp
qed

lemma init_AB:
  "NewtonRaphson_init sistema_AB tol n =
     \<lparr>nr_V = [(''A'', 1), (''B'', 1)], nr_theta = [(''A'', 0), (''B'', 0)], nr_Ybus = Y_AB,
      nr_pot_esp = [(''A'', 0, 0), (''B'', 0, - 1 / 2)], nr_tol = tol, nr_max_iter = n,
      nr_pq = [''B''], nr_pv = [], nr_swing = [''A''], nr_index = [''A'', ''B'']\<rparr>"
  by (simp add: NewtonRaphson_init_def sistema_AB_def Let_def barras_tipo_def)

lemma injected_AB:
  "calc_injected_power Y_AB [(''A'', 1), (''B'', 1)] [(''A'', 0), (''B'', 0)]
     = Inr ([(''A'', 0), (''B'', 0)], [(''A'', 0), (''B'', 0)])"
proof -
  let ?V = "[(''A'', 1), (''B'', 1)] :: Series"
  let ?th = "[(''A'', 0), (''B'', 0)] :: Series"
  have rep: "\<forall>k \<in> set (map fst ?V). map_of ?V k = Some ((\<lambda>k. 1) k) \<and> map_of ?th k = Some ((\<lambda>k. 0) k)"
    by simp
  have rows: "set (map fst ?V) \<subseteq> set (df_index Y_AB)" and cols: "set (map fst ?V) \<subseteq> set (df_columns Y_AB)"
    by (simp_all add: Y_AB_def)
  show ?thesis
    unfolding calc_injected_power_values [OF Y_AB_wf rows cols _ rep, simplified]
    by (simp add: P_inj_def Q_inj_def cell_Y_AB)
qed

lemma jacobian_AB:
  "Jacobian_build [(''A'', 1), (''B'', 1)] [(''A'', 0), (''B'', 0)]
       (df_map Re Y_AB) (df_map Im Y_AB) [(''A'', 0), (''B'', 0)] [(''A'', 0), (''B'', 0)]
       [''B''] [] [''A''] [''A'', ''B'']
     = Inr [[1, 0, 0, 0], [0, 1, 0, 0], [0, 0, 1, 0], [0, 0, 0, 1]]"
proof -
  let ?V = "[(''A'', 1), (''B'', 1)] :: Series"
  let ?Z = "[(''A'', 0), (''B'', 0)] :: Series"
  let ?g = "\<lambda>k m. Re (cell Y_AB k m)"
  let ?b = "\<lambda>k m. Im (cell Y_AB k m)"
  have rep: "\<forall>k \<in> set [''A'', ''B''] \<union> set [''A''] \<union> set [''B''].
        map_of ?V k = Some ((\<lambda>k. 1) k) \<and> map_of ?Z k = Some ((\<lambda>k. 0) k)
        \<and> map_of ?Z k = Some ((\<lambda>k. 0) k) \<and> map_of ?Z k = Some ((\<lambda>k. 0) k)"
    by simp
  have gb: "\<forall>k \<in> set [''A'', ''B''] \<union> set [''A''] \<union> set [''B''].
      \<forall>m \<in> set [''A'', ''B''] \<union> set [''A''] \<union> set [''B''].
        df_loc (df_map Re Y_AB) k m = Inr (?g k m) \<and> df_loc (df_map Im Y_AB) k m = Inr (?b k m)"
    by (simp add: df_loc_Y_AB)
  have "J_ref (\<lambda>k. 1) (\<lambda>k. 0) ?g ?b (\<lambda>k. 0) (\<lambda>k. 0) [''A'', ''B''] [''A''] [''B'']
      = [[1, 0, 0, 0], [0, 1, 0, 0], [0, 0, 1, 0], [0, 0, 0, 1]]"
    by (simp add: J_ref_def H_ref_def N_ref_def M_ref_def L_ref_def BIG_NUMBER_def cell_Y_AB)
  then show ?thesis
    using Jacobian_build_eq [OF rep gb, of "[]"] by simp
qed

lemma iteracao_AB:
  "iteracao solve_identidade4 (NewtonRaphson_init sistema_AB (1 / 1000) n)
     = Inr (Corrigido [(''A'', 0), (''B'', 0)] [(''A'', 1), (''B'', 1 / 2)])"
  by (simp add: iteracao_def init_AB injected_AB jacobian_AB then_do_def calc_delta_p_def
      calc_delta_q_def series_set_def check_convergence_def solve_identidade4_def
      apply_delta_def split_corrections_def series_loc_def Let_def)

lemma solve_AB:
  "solve solve_identidade4 (NewtonRaphson_init sistema_AB (1 / 1000) 1)
     = Inr ([(''A'', 1), (''B'', 1 / 2)], [(''A'', 0), (''B'', 0)], False, 1)"
proof -
  let ?s = "NewtonRaphson_init sistema_AB (1 / 1000) 1"
  have n: "nr_max_iter ?s = 1"
    by (simp add: init_AB)
  have "solve solve_identidade4 ?s = solve_loop solve_identidade4 ?s 0 (Suc 0)"
    by (simp add: solve_def n)
  also have "\<dots> = Inr ([(''A'', 1), (''B'', 1 / 2)], [(''A'', 0), (''B'', 0)], False, 1)"
    by (simp add: iteracao_AB n)
  finally show ?thesis .
qed

text \<open>
  The theorem of C2 on the two-bus system, one pass with the tolerance 1/1000: the pass
  halves the magnitude of the load bus B and leaves the swing bus A at angle 0 and
  magnitude 1.
\<close>

theorem swing_invariance_witness:
  "solve solve_identidade4 (NewtonRaphson_init sistema_AB (1 / 1000) 1)
     = Inr ([(''A'', 1), (''B'', 1 / 2)], [(''A'', 0), (''B'', 0)], False, 1)
   \<and> map_of [(''A'', 0), (''B'', 0 :: real)] ''A'' = Some 0
   \<and> map_of [(''A'', 1), (''B'', 1 / 2 :: real)] ''A'' = Some 1
   \<and> map_of (nr_V (estado solve_identidade4 (NewtonRaphson_init sistema_AB (1 / 1000) 1) 1)) ''A''
       = Some 1
   \<and> map_of (nr_V (estado solve_identidade4 (NewtonRaphson_init sistema_AB (1 / 1000) 1) 1)) ''B''
       = Some (1 / 2)"
proof -
  let ?r = "\<lparr>row_barra = ''A'', row_tipo = ''SWING'', row_V = 1, row_Theta = 0,
             row_P_esp = 0, row_Q_esp = 0\<rparr>"
  have d: "distinct (map row_barra (sis_df_bus sistema_AB))"
    and r: "?r \<in> set (sis_df_bus sistema_AB)" and t: "row_tipo ?r = ''SWING''"
    by (simp_all add: sistema_AB_def)
  let ?s = "NewtonRaphson_init sistema_AB (1 / 1000) 1"
  have inv: "(\<forall>i. map_of (nr_theta (estado solve_identidade4 ?s i)) ''A'' = Some 0
                \<and> map_of (nr_V (estado solve_identidade4 ?s i)) ''A'' = Some 1)
       \<and> (\<forall>V' theta' c k. solve solve_identidade4 ?s = Inr (V', theta', c, k)
             \<longrightarrow> map_of theta' ''A'' = Some 0 \<and> map_of V' ''A'' = Some 1)"
    using swing_invariance [OF exact_solver_identidade4 d r t, of "1 / 1000" 1] by simp
  have "map_of (nr_V (estado solve_identidade4 ?s 1)) ''A'' = Some 1"
    using inv by blast
  moreover have "map_of [(''A'', 0), (''B'', 0 :: real)] ''A'' = Some 0
      \<and> map_of [(''A'', 1), (''B'', 1 / 2 :: real)] ''A'' = Some 1"
    using inv solve_AB by blast
  ultimately show ?thesis
    using solve_AB by (simp add: iteracao_AB)
qed

text \<open>
  The theorem of C9 on the two-bus system with max_iter = 1: the only pass corrects the
  state, and solve returns that state with converged = False and the count 1.
\<close>

theorem solve_exhaustion_witness:
  "solve solve_identidade4 (NewtonRaphson_init sistema_AB (1 / 1000) 1)
     = Inr ([(''A'', 1), (''B'', 1 / 2)], [(''A'', 0), (''B'', 0)], False, 1)"
proof -
  let ?s = "NewtonRaphson_init sistema_AB (1 / 1000) 1"
  have n: "nat (nr_max_iter ?s) = Suc 0" "nr_max_iter ?s = 1"
    by (simp_all add: init_AB)
  have "\<forall>i < nat (nr_max_iter ?s). \<exists>th v. iteracao solve_identidade4 (estado solve_identidade4 ?s i) = Inr (Corrigido th v)"
    by (simp add: n iteracao_AB)
  then have "solve solve_identidade4 ?s
            = Inr (nr_V (estado solve_identidade4 ?s (nat (nr_max_iter ?s))),
                   nr_theta (estado solve_identidade4 ?s (nat (nr_max_iter ?s))), False, nr_max_iter ?s)"
    using solve_exhaustion [of ?s solve_identidade4] by blast
  then show ?thesis
    by (simp add: n iteracao_AB)
qed

end
